theory Spec2Isabelle
  imports Complex_Main
begin

section \<open>The DJ transition scheduler (src/extension/content.ts)\<close>

text \<open>
  The content script keeps one mutable \<open>state\<close> object. It is written by the body of the
  one-second \<open>mainLoop\<close> interval, by \<open>playBufferedAudio\<close>, and by the callbacks that the
  loop registers (storage read, \<open>GENERATE_INTRO\<close> response, audio element events, the
  cooldown timer). Each of these is a function from the state to the new state and the
  list of effects it performs, in program order. Media times are JavaScript numbers; they
  are modelled as real numbers, so the comparisons are exact.
\<close>

datatype DJState = IDLE | GENERATING | READY | PLAYING | COOLDOWN

record State =
  status :: DJState
  currentSongSig :: string
  bufferedAudio :: "string option"
  generatedForSig :: "string option"
  lastTime :: real

definition initial_state :: State where
  "initial_state =
     \<lparr>status = IDLE, currentSongSig = [], bufferedAudio = None,
      generatedForSig = None, lastTime = 0\<rparr>"

text \<open>The \<open>video\<close> element as the loop reads it.\<close>

record Video =
  paused :: bool
  duration :: real
  currentTime :: real

text \<open>
  What one run of the loop body reads from its surroundings: whether \<open>chrome.runtime.id\<close>
  is still there, the video element (if any), the title and artist scraped by
  \<open>getSongInfo\<close>, whether \<open>chrome.storage.local\<close> exists, and whether the call of
  \<open>chrome.storage.local.get\<close> throws. A falsy \<open>video.duration\<close> is the duration 0.
\<close>

record TickInput =
  runtimeId :: bool
  video :: "Video option"
  title :: string
  artist :: string
  storageAvailable :: bool
  storageGetThrows :: bool

text \<open>
  Effects of the scheduler. \<open>StorageGet sig\<close> is the call of \<open>chrome.storage.local.get\<close>
  whose callback closes over \<open>sig\<close>; \<open>SendGenerateIntro sig\<close> is the \<open>GENERATE_INTRO\<close>
  message whose response callback closes over the same \<open>sig\<close> (the rest of the request
  payload does not reach the state and is left out); \<open>PlayAudio a\<close> is
  \<open>audioEl.src = ...; audioEl.play()\<close> on the buffered audio \<open>a\<close>.
\<close>

datatype SchedEffect =
    ClearMainLoop
  | StorageGet string
  | SendGenerateIntro string
  | StartDucking
  | StopDucking
  | PlayAudio string
  | StartCooldownTimer

definition signature_of :: "TickInput \<Rightarrow> string" where
  "signature_of inp = title inp @ ''|'' @ artist inp"

text \<open>\<open>playBufferedAudio\<close>, up to its first \<open>await\<close>.\<close>

definition playBufferedAudio :: "State \<Rightarrow> State \<times> SchedEffect list" where
  "playBufferedAudio s =
     (case bufferedAudio s of
        None \<Rightarrow> (s, [])
      | Some a \<Rightarrow>
          if a = [] then (s, [])
          else if generatedForSig s \<noteq> Some (currentSongSig s) then
            (s\<lparr>status := IDLE, bufferedAudio := None, generatedForSig := None\<rparr>, [])
          else (s\<lparr>status := PLAYING\<rparr>, [StartDucking, PlayAudio a]))"

text \<open>The block of the loop body under the comment \<open>RESET LOGIC\<close>.\<close>

definition reset_logic :: "string \<Rightarrow> real \<Rightarrow> State \<Rightarrow> State" where
  "reset_logic sig now s =
     (let s1 = (if sig \<noteq> currentSongSig s
                then s\<lparr>currentSongSig := sig, status := IDLE,
                       bufferedAudio := None, generatedForSig := None\<rparr>
                else s);
          s2 = (if lastTime s1 > now + 5
                then s1\<lparr>status := IDLE, bufferedAudio := None, generatedForSig := None\<rparr>
                else s1)
      in s2\<lparr>lastTime := now\<rparr>)"

text \<open>The last statement of the loop body.\<close>

definition ready_check :: "real \<Rightarrow> State \<times> SchedEffect list \<Rightarrow> State \<times> SchedEffect list" where
  "ready_check timeLeft r =
     (if status (fst r) = READY \<and> timeLeft < 12
      then (let (s', fx) = playBufferedAudio (fst r) in (s', snd r @ fx))
      else r)"

text \<open>
  The block under the comment \<open>STATE MACHINE\<close>. The two early \<open>return\<close>s (empty title or
  artist, no storage API) leave the loop body; when \<open>chrome.storage.local.get\<close> throws,
  the interval is cleared and the body goes on to its last statement.
\<close>

definition state_machine :: "TickInput \<Rightarrow> string \<Rightarrow> real \<Rightarrow> State \<Rightarrow> State \<times> SchedEffect list" where
  "state_machine inp sig timeLeft s =
     (if status s = IDLE \<and> timeLeft < 45 \<and> timeLeft > 10 then
        if title inp = [] \<or> artist inp = [] then (s, [])
        else
          let s' = s\<lparr>status := GENERATING, generatedForSig := Some sig\<rparr> in
          if \<not> storageAvailable inp then (s', [])
          else if storageGetThrows inp then ready_check timeLeft (s', [ClearMainLoop])
          else ready_check timeLeft (s', [StorageGet sig])
      else ready_check timeLeft (s, []))"

text \<open>One run of the body of \<open>mainLoop\<close>.\<close>

definition mainLoop :: "TickInput \<Rightarrow> State \<Rightarrow> State \<times> SchedEffect list" where
  "mainLoop inp s =
     (if \<not> runtimeId inp then (s, [ClearMainLoop])
      else case video inp of
        None \<Rightarrow> (s, [])
      | Some v \<Rightarrow>
          if paused v \<or> duration v = 0 then (s, [])
          else
            let sig = signature_of inp;
                timeLeft = duration v - currentTime v
            in state_machine inp sig timeLeft (reset_logic sig (currentTime v) s))"

text \<open>
  The callback of \<open>chrome.storage.local.get\<close>, registered by a tick with signature \<open>sig\<close>:
  \<open>lastError\<close> is \<open>chrome.runtime.lastError\<close>, \<open>enabled\<close> is \<open>settings.enabled\<close> and
  \<open>sendThrows\<close> says whether \<open>chrome.runtime.sendMessage\<close> throws.
\<close>

definition storage_callback :: "string \<Rightarrow> bool \<Rightarrow> bool \<Rightarrow> bool \<Rightarrow> State \<Rightarrow> State \<times> SchedEffect list" where
  "storage_callback sig lastError enabled sendThrows s =
     (if lastError then (s, [])
      else if \<not> enabled then (s\<lparr>status := COOLDOWN\<rparr>, [])
      else if sendThrows then (s, [])
      else (s, [SendGenerateIntro sig]))"

text \<open>
  The response callback of the \<open>GENERATE_INTRO\<close> message sent for signature \<open>sig\<close>.
  \<open>audio\<close> is \<open>response.audio\<close>: \<open>None\<close> when the response or its \<open>audio\<close> field is
  missing; the empty string is falsy as well.
\<close>

definition generate_intro_callback :: "string \<Rightarrow> bool \<Rightarrow> string option \<Rightarrow> State \<Rightarrow> State" where
  "generate_intro_callback sig lastError audio s =
     (if lastError then s
      else if currentSongSig s \<noteq> sig then s
      else case audio of
        None \<Rightarrow> s\<lparr>status := COOLDOWN\<rparr>
      | Some a \<Rightarrow>
          if a = [] then s\<lparr>status := COOLDOWN\<rparr>
          else s\<lparr>bufferedAudio := Some a, status := READY\<rparr>)"

text \<open>
  The rest of \<open>playBufferedAudio\<close>: the \<open>catch\<close> of a rejected \<open>audioEl.play()\<close>, the
  \<open>onended\<close> handler, and the five-second timer that handler starts.
\<close>

definition play_rejected :: "State \<Rightarrow> State \<times> SchedEffect list" where
  "play_rejected s = (s\<lparr>status := IDLE\<rparr>, [StopDucking])"

definition audio_onended :: "State \<Rightarrow> State \<times> SchedEffect list" where
  "audio_onended s =
     (s\<lparr>status := COOLDOWN, bufferedAudio := None\<rparr>, [StopDucking, StartCooldownTimer])"

definition cooldown_timeout :: "State \<Rightarrow> State" where
  "cooldown_timeout s = (if status s = COOLDOWN then s\<lparr>status := IDLE\<rparr> else s)"

text \<open>
  The events the scheduler reacts to, and one step of the content script: the state, and
  whether the \<open>mainLoop\<close> interval is still armed (\<open>clearInterval\<close> disarms it).
\<close>

datatype SchedEvent =
    Tick TickInput
  | StorageResult string bool bool bool
  | IntroResponse string bool "string option"
  | PlayRejected
  | AudioEnded
  | CooldownTimeout

fun sched_step :: "SchedEvent \<Rightarrow> State \<times> bool \<Rightarrow> (State \<times> bool) \<times> SchedEffect list" where
  "sched_step (Tick inp) (s, armed) =
     (if armed
      then (let (s', fx) = mainLoop inp s in ((s', ClearMainLoop \<notin> set fx), fx))
      else ((s, armed), []))"
| "sched_step (StorageResult sig lastError enabled sendThrows) (s, armed) =
     (let (s', fx) = storage_callback sig lastError enabled sendThrows s in ((s', armed), fx))"
| "sched_step (IntroResponse sig lastError audio) (s, armed) =
     ((generate_intro_callback sig lastError audio s, armed), [])"
| "sched_step PlayRejected (s, armed) =
     (let (s', fx) = play_rejected s in ((s', armed), fx))"
| "sched_step AudioEnded (s, armed) =
     (let (s', fx) = audio_onended s in ((s', armed), fx))"
| "sched_step CooldownTimeout (s, armed) = ((cooldown_timeout s, armed), [])"

text \<open>
  A run over a list of events, logging for every event the state it left behind and the
  effects it performed.
\<close>

fun sched_log :: "SchedEvent list \<Rightarrow> State \<times> bool \<Rightarrow> (SchedEvent \<times> State \<times> SchedEffect list) list" where
  "sched_log [] c = []"
| "sched_log (e # es) c =
     (let (c', fx) = sched_step e c in (e, fst c', fx) # sched_log es c')"

definition sched_run :: "SchedEvent list \<Rightarrow> State \<Rightarrow> State" where
  "sched_run es s = (case sched_log es (s, True) of [] \<Rightarrow> s | l \<Rightarrow> fst (snd (last l)))"

text \<open>
  The scenario of the specification: the track "Song A" by "Artist A", 200 seconds long,
  observed at position \<open>pos\<close> while playing.
\<close>

definition scenario_tick :: "real \<Rightarrow> bool \<Rightarrow> bool \<Rightarrow> TickInput" where
  "scenario_tick pos sa st =
     \<lparr>runtimeId = True,
      video = Some \<lparr>paused = False, duration = 200, currentTime = pos\<rparr>,
      title = ''Song A'', artist = ''Artist A'',
      storageAvailable = sa, storageGetThrows = st\<rparr>"

section \<open>Double-precision arithmetic\<close>

text \<open>
  The times of the live call service are JavaScript numbers, IEEE 754 binary64 values,
  and \<open>+\<close>, \<open>-\<close> and \<open>*\<close> on them round the exact result to the nearest such value, ties
  to the even significand. A finite double is a real number here; \<open>double_round\<close> rounds a
  real number to 53 significant bits, with the fixed spacing \<open>2 powr - 1074\<close> below the
  smallest normal number \<open>2 powr - 1022\<close>. Results of magnitude \<open>2 powr 1024\<close> and more,
  where the machine gives \<open>Infinity\<close>, are not modelled: the values are seconds of an
  audio clock and lengths of audio buffers.
\<close>

definition round_even :: "real \<Rightarrow> int" where
  "round_even y =
     (let f = \<lfloor>y\<rfloor> in
      if y - of_int f < 1 / 2 then f
      else if 1 / 2 < y - of_int f then f + 1
      else if even f then f else f + 1)"

definition binade :: "real \<Rightarrow> int" where
  "binade x = max \<lfloor>log 2 x\<rfloor> (- 1022)"

definition ulp :: "real \<Rightarrow> real" where
  "ulp x = 2 powr (of_int (binade x) - 52)"

definition double_round :: "real \<Rightarrow> real" where
  "double_round x = sgn x * (of_int (round_even (\<bar>x\<bar> / ulp \<bar>x\<bar>)) * ulp \<bar>x\<bar>)"

definition is_double :: "real \<Rightarrow> bool" where
  "is_double x \<longleftrightarrow> double_round x = x"

definition double_add :: "real \<Rightarrow> real \<Rightarrow> real" where
  "double_add a b = double_round (a + b)"

definition double_sub :: "real \<Rightarrow> real \<Rightarrow> real" where
  "double_sub a b = double_round (a - b)"

definition double_mult :: "real \<Rightarrow> real \<Rightarrow> real" where
  "double_mult a b = double_round (a * b)"

section \<open>The live call service (class LiveCallService in src/services/ytmApiService.ts)\<close>

text \<open>
  Browser objects (audio contexts, the media stream, the backend session, buffer source
  nodes, the caller's \<open>LiveCallConfig\<close> with its three callbacks) are handles, natural
  numbers. \<open>liveSources\<close> is a JavaScript \<open>Set\<close>: a list without duplicates in insertion
  order. Times of the output audio context are doubles, and arithmetic on them rounds.
\<close>

record LiveCallService =
  liveInputContext :: "nat option"
  liveOutputContext :: "nat option"
  liveStream :: "nat option"
  liveSession :: "nat option"
  liveSources :: "nat list"
  liveNextStartTime :: real
  liveSilenceInterval :: "nat option"
  isLiveActive :: bool
  config :: "nat option"
  currentSessionId :: nat

definition new_LiveCallService :: LiveCallService where
  "new_LiveCallService =
     \<lparr>liveInputContext = None, liveOutputContext = None, liveStream = None,
      liveSession = None, liveSources = [], liveNextStartTime = 0,
      liveSilenceInterval = None, isLiveActive = False, config = None,
      currentSessionId = 0\<rparr>"

text \<open>
  Effects of the service, in program order. \<open>SourceStart src t d\<close> is \<open>source.start(t)\<close>
  on a source whose buffer lasts \<open>d\<close> seconds; \<open>ScheduleCleanup ms\<close> is
  \<open>setTimeout(() => this.cleanupSession(true), ms)\<close>; \<open>DecodeAudio data\<close> is the awaited
  call of \<open>decodeAudioData\<close>.
\<close>

datatype LiveEffect =
    OnStatusChange nat string
  | OnUnrecoverableError nat
  | OnCallEnd nat
  | SourceStart nat real real
  | SourceStop nat
  | CloseOutputContext nat
  | CloseInputContext nat
  | StopStreamTracks nat
  | ClearSilenceInterval nat
  | SendToolResponse
  | ScheduleCleanup real
  | DecodeAudio string
  | SendInitialTrigger
  | ConnectInput nat nat

definition set_add :: "nat \<Rightarrow> nat list \<Rightarrow> nat list" where
  "set_add x xs = (if x \<in> set xs then xs else xs @ [x])"

definition close_output :: "LiveCallService \<Rightarrow> LiveEffect list" where
  "close_output s = (case liveOutputContext s of Some c \<Rightarrow> [CloseOutputContext c] | None \<Rightarrow> [])"

definition call_end :: "LiveCallService \<Rightarrow> LiveEffect list" where
  "call_end s = (case config s of Some c \<Rightarrow> [OnCallEnd c] | None \<Rightarrow> [])"

definition unrecoverable_error :: "LiveCallService \<Rightarrow> LiveEffect list" where
  "unrecoverable_error s = (case config s of Some c \<Rightarrow> [OnUnrecoverableError c] | None \<Rightarrow> [])"

text \<open>\<open>cleanupSession(graceful)\<close>.\<close>

definition cleanupSession :: "bool \<Rightarrow> LiveCallService \<Rightarrow> LiveCallService \<times> LiveEffect list" where
  "cleanupSession graceful s =
     (if \<not> isLiveActive s then (s, [])
      else
        let s1 = s\<lparr>isLiveActive := False, liveSession := None, liveStream := None,
                   liveInputContext := None, liveSilenceInterval := None\<rparr>;
            fx1 = (case liveStream s of Some m \<Rightarrow> [StopStreamTracks m] | None \<Rightarrow> [])
                @ (case liveInputContext s of Some c \<Rightarrow> [CloseInputContext c] | None \<Rightarrow> [])
                @ (case liveSilenceInterval s of Some i \<Rightarrow> [ClearSilenceInterval i] | None \<Rightarrow> [])
        in if liveSources s1 = [] then
             (s1\<lparr>liveOutputContext := None, liveNextStartTime := 0\<rparr>,
              fx1 @ close_output s1 @ (if graceful then call_end s1 else []))
           else (s1, fx1))"

text \<open>
  The \<open>ended\<close> listener of a buffer source; \<open>sessionId\<close> and \<open>source\<close> are the values its
  closure captured.
\<close>

definition source_ended :: "nat \<Rightarrow> nat \<Rightarrow> LiveCallService \<Rightarrow> LiveCallService \<times> LiveEffect list" where
  "source_ended sessionId source s =
     (let s1 = s\<lparr>liveSources := removeAll source (liveSources s)\<rparr> in
      if sessionId \<noteq> currentSessionId s1 then (s1, [])
      else if \<not> isLiveActive s1 \<and> liveSources s1 = [] then
        (s1\<lparr>liveOutputContext := None\<rparr>, close_output s1 @ call_end s1)
      else (s1, []))"

text \<open>
  A message of the backend, as far as \<open>onmessage\<close> reads it: \<open>interrupted\<close> of
  \<open>serverContent\<close>, the data of the first inline part of its model turn, and the names of
  the function calls of \<open>toolCall\<close>.
\<close>

record ServerContent =
  interrupted :: bool
  inlineData :: "string option"

record LiveServerMessage =
  serverContent :: "ServerContent option"
  toolCall :: "string list option"

definition base64Audio :: "LiveServerMessage \<Rightarrow> string option" where
  "base64Audio msg = (case serverContent msg of Some sc \<Rightarrow> inlineData sc | None \<Rightarrow> None)"

definition handle_interrupted :: "real \<Rightarrow> LiveServerMessage \<Rightarrow> LiveCallService \<Rightarrow> LiveCallService \<times> LiveEffect list" where
  "handle_interrupted now msg s =
     (case serverContent msg of
        None \<Rightarrow> (s, [])
      | Some sc \<Rightarrow>
          if interrupted sc then
            (s\<lparr>liveSources := [],
               liveNextStartTime := (case liveOutputContext s of Some c \<Rightarrow> now | None \<Rightarrow> 0)\<rparr>,
             map SourceStop (liveSources s))
          else (s, []))"

definition handle_tool_calls :: "real \<Rightarrow> LiveServerMessage \<Rightarrow> LiveCallService \<Rightarrow> LiveEffect list" where
  "handle_tool_calls now msg s =
     (case toolCall msg of
        None \<Rightarrow> []
      | Some fcs \<Rightarrow>
          concat (map (\<lambda>name.
            if name = ''endCall'' then
              [SendToolResponse,
               ScheduleCleanup (case liveOutputContext s of
                  Some c \<Rightarrow>
                    double_add (double_mult (max 0 (double_sub (liveNextStartTime s) now)) 1000) 1000
                | None \<Rightarrow> 1000)]
            else []) fcs))"

text \<open>
  \<open>onmessage\<close> up to its \<open>await\<close>; \<open>now\<close> is \<open>currentTime\<close> of the output context, read
  when there is one.
\<close>

definition onmessage :: "real \<Rightarrow> LiveServerMessage \<Rightarrow> LiveCallService \<Rightarrow> LiveCallService \<times> LiveEffect list" where
  "onmessage now msg s =
     (let (s1, fx1) = handle_interrupted now msg s;
          fx2 = handle_tool_calls now msg s1
      in case base64Audio msg of
           None \<Rightarrow> (s1, fx1 @ fx2)
         | Some d \<Rightarrow>
             if d \<noteq> [] \<and> liveOutputContext s1 \<noteq> None then
               (s1\<lparr>liveNextStartTime := max (liveNextStartTime s1) now\<rparr>,
                fx1 @ fx2 @ [DecodeAudio d])
             else (s1, fx1 @ fx2))"

text \<open>
  The rest of \<open>onmessage\<close>, after \<open>decodeAudioData\<close> returned a buffer of \<open>dur\<close> seconds;
  \<open>source\<close> is the node made by \<open>createBufferSource\<close>. A failed decode is caught and
  does nothing.
\<close>

definition audio_decoded :: "nat \<Rightarrow> real \<Rightarrow> LiveCallService \<Rightarrow> LiveCallService \<times> LiveEffect list" where
  "audio_decoded source dur s =
     (s\<lparr>liveNextStartTime := double_add (liveNextStartTime s) dur,
        liveSources := set_add source (liveSources s)\<rparr>,
      [SourceStart source (liveNextStartTime s) dur])"

definition onopen :: "LiveCallService \<Rightarrow> LiveCallService \<times> LiveEffect list" where
  "onopen s =
     (s, (case config s of Some c \<Rightarrow> [OnStatusChange c ''LIVE: ON AIR''] | None \<Rightarrow> [])
       @ (case liveInputContext s of
            None \<Rightarrow> []
          | Some i \<Rightarrow> (case liveStream s of
               None \<Rightarrow> []
             | Some m \<Rightarrow> [SendInitialTrigger, ConnectInput i m])))"

definition onclose :: "real \<Rightarrow> LiveCallService \<Rightarrow> LiveCallService \<times> LiveEffect list" where
  "onclose now s =
     (if isLiveActive s then
        (case liveOutputContext s of
           Some c \<Rightarrow>
             (s, [ScheduleCleanup
                    (double_add (double_mult (max 0 (double_sub (liveNextStartTime s) now)) 1000) 500)])
         | None \<Rightarrow> cleanupSession True s)
      else (s, []))"

definition onerror :: "LiveCallService \<Rightarrow> LiveCallService \<times> LiveEffect list" where
  "onerror s = (let (s', fx) = cleanupSession False s in (s', fx @ unrecoverable_error s'))"

text \<open>
  \<open>startSession(config)\<close>. The environment supplies the handles of the objects the call
  creates and says where, if anywhere, the \<open>try\<close> block throws: before an audio context
  exists, after the input context only, at \<open>resume\<close> or \<open>getUserMedia\<close> (no input
  device), or at \<open>ai.live.connect\<close> (no backend connection). The call is one step: no
  other handler of the service runs between its two \<open>await\<close>s.
\<close>

datatype StartFailure =
    ClientThrows
  | OutputContextThrows
  | GetUserMediaRejects
  | ConnectThrows

record StartEnv =
  newInputContext :: nat
  newOutputContext :: nat
  newStream :: nat
  newSession :: nat
  failure :: "StartFailure option"

definition start_catch :: "LiveCallService \<Rightarrow> LiveCallService \<times> LiveEffect list" where
  "start_catch s = (let (s', fx) = cleanupSession False s in (s', unrecoverable_error s @ fx))"

definition startSession :: "nat \<Rightarrow> StartEnv \<Rightarrow> LiveCallService \<Rightarrow> LiveCallService \<times> LiveEffect list" where
  "startSession cfg env s =
     (let s0 = s\<lparr>currentSessionId := currentSessionId s + 1, config := Some cfg,
                 isLiveActive := True, liveNextStartTime := 0, liveSources := []\<rparr>;
          s1 = s0\<lparr>liveInputContext := Some (newInputContext env)\<rparr>;
          s2 = s1\<lparr>liveOutputContext := Some (newOutputContext env)\<rparr>;
          s3 = s2\<lparr>liveStream := Some (newStream env)\<rparr>;
          s4 = s3\<lparr>liveSession := Some (newSession env)\<rparr>;
          (s', fx) = (case failure env of
                        Some ClientThrows \<Rightarrow> start_catch s0
                      | Some OutputContextThrows \<Rightarrow> start_catch s1
                      | Some GetUserMediaRejects \<Rightarrow> start_catch s2
                      | Some ConnectThrows \<Rightarrow> start_catch s3
                      | None \<Rightarrow> (s4, []))
      in (s', OnStatusChange cfg ''CONNECTING CALL...'' # fx))"

text \<open>
  The events of the service. Every callback of a session carries the \<open>sessionId\<close> its
  closure captured, first; only the \<open>ended\<close> listener reads it (the others print it).
\<close>

datatype LiveEvent =
    StartSession nat StartEnv
  | CleanupSession bool
  | OnOpen nat
  | OnMessage nat real LiveServerMessage
  | AudioDecoded nat nat real
  | SourceEnded nat nat
  | OnClose nat real
  | OnError nat

fun live_step :: "LiveEvent \<Rightarrow> LiveCallService \<Rightarrow> LiveCallService \<times> LiveEffect list" where
  "live_step (StartSession cfg env) s = startSession cfg env s"
| "live_step (CleanupSession graceful) s = cleanupSession graceful s"
| "live_step (OnOpen sessionId) s = onopen s"
| "live_step (OnMessage sessionId now msg) s = onmessage now msg s"
| "live_step (AudioDecoded sessionId source dur) s = audio_decoded source dur s"
| "live_step (SourceEnded sessionId source) s = source_ended sessionId source s"
| "live_step (OnClose sessionId now) s = onclose now s"
| "live_step (OnError sessionId) s = onerror s"

fun live_run :: "LiveEvent list \<Rightarrow> LiveCallService \<Rightarrow> LiveCallService \<times> LiveEffect list" where
  "live_run [] s = (s, [])"
| "live_run (e # es) s =
     (let (s1, fx1) = live_step e s; (s2, fx2) = live_run es s1 in (s2, fx1 @ fx2))"

text \<open>The scheduled play intervals \<open>(start, duration)\<close> of a trace, in program order.\<close>

fun scheduled :: "LiveEffect list \<Rightarrow> (real \<times> real) list" where
  "scheduled [] = []"
| "scheduled (SourceStart src t d # fx) = (t, d) # scheduled fx"
| "scheduled (_ # fx) = scheduled fx"

text \<open>
  Intervals in scheduling order that start in non-decreasing order, each later one no
  earlier than the end of each earlier one as the code computes that end: start plus
  duration, rounded.
\<close>

fun back_to_back :: "(real \<times> real) list \<Rightarrow> bool" where
  "back_to_back [] = True"
| "back_to_back ((t, d) # rest) =
     ((\<forall>(t', d') \<in> set rest. t \<le> t' \<and> double_add t d \<le> t') \<and> back_to_back rest)"

text \<open>
  The arrival of backend messages without an interruption signal (the clock reading is a
  double), the completion of their decodes with a buffer of non-negative length, and the
  end of a chunk.
\<close>

fun audio_traffic :: "LiveEvent \<Rightarrow> bool" where
  "audio_traffic (OnMessage sessionId now msg) =
     (is_double now \<and> (case serverContent msg of None \<Rightarrow> True | Some sc \<Rightarrow> \<not> interrupted sc))"
| "audio_traffic (AudioDecoded sessionId source dur) = (0 \<le> dur)"
| "audio_traffic (SourceEnded sessionId source) = True"
| "audio_traffic _ = False"

text \<open>
  A backend message that carries audio and no interruption signal, and the events of a
  sequence of chunks \<open>(now, msg, source, dur)\<close> each of which is decoded before anything
  else happens: the arrival of the message at clock reading \<open>now\<close>, then the completion of
  its decode into the node \<open>source\<close> with a buffer of \<open>dur\<close> seconds.
\<close>

definition carries_audio :: "LiveServerMessage \<Rightarrow> bool" where
  "carries_audio msg \<longleftrightarrow>
     (case base64Audio msg of None \<Rightarrow> False | Some data \<Rightarrow> data \<noteq> [])
     \<and> (case serverContent msg of None \<Rightarrow> True | Some sc \<Rightarrow> \<not> interrupted sc)"

fun chunk_events :: "nat \<Rightarrow> (real \<times> LiveServerMessage \<times> nat \<times> real) list \<Rightarrow> LiveEvent list" where
  "chunk_events sessionId [] = []"
| "chunk_events sessionId ((now, msg, source, dur) # cs) =
     OnMessage sessionId now msg # AudioDecoded sessionId source dur # chunk_events sessionId cs"

text \<open>
  The scheduling law in the words of the specification: each chunk starts at the maximum
  of the next scheduled time and the clock reading at its arrival, and the next scheduled
  time is that start advanced by the chunk's duration (in double arithmetic).
\<close>

fun spec_schedule :: "real \<Rightarrow> (real \<times> LiveServerMessage \<times> nat \<times> real) list \<Rightarrow> (real \<times> real) list" where
  "spec_schedule next [] = []"
| "spec_schedule next ((now, msg, source, dur) # cs) =
     (max next now, dur) # spec_schedule (double_add (max next now) dur) cs"

text \<open>Any event but a further call of \<open>startSession\<close>.\<close>

fun no_restart :: "LiveEvent \<Rightarrow> bool" where
  "no_restart (StartSession cfg env) = False"
| "no_restart _ = True"

definition is_release :: "LiveEffect \<Rightarrow> bool" where
  "is_release e = (case e of CloseOutputContext c \<Rightarrow> True | OnCallEnd c \<Rightarrow> True | _ \<Rightarrow> False)"

section \<open>The remote input source (class RemoteSocketSource)\<close>

text \<open>
  The relay socket and the two callbacks are handles. A text frame is given as what
  \<open>JSON.parse\<close> makes of it; \<open>btoa\<close> is the browser's base64 encoder.
\<close>

record RemoteSocketSource =
  ws :: "nat option"
  hostId :: string
  relayUrl :: string
  onStatusChange :: nat
  propagateAudio :: "nat option"

datatype ControlMessage =
    GUEST_CONNECTED string
  | GUEST_DISCONNECTED
  | OtherMessage
  | InvalidJson

datatype RelayFrame = Binary "nat list" | Text ControlMessage

datatype SocketEffect =
    StatusCallback nat string
  | NewWebSocket nat string
  | SendRegisterHost nat string
  | CloseWebSocket nat
  | AudioCallback nat string string

definition new_RemoteSocketSource :: "string \<Rightarrow> string \<Rightarrow> nat \<Rightarrow> RemoteSocketSource" where
  "new_RemoteSocketSource hid url cb =
     \<lparr>ws = None, hostId = hid, relayUrl = url, onStatusChange = cb, propagateAudio = None\<rparr>"

definition arrayBufferToBase64 :: "(string \<Rightarrow> string) \<Rightarrow> nat list \<Rightarrow> string" where
  "arrayBufferToBase64 btoa buffer = btoa (map char_of buffer)"

definition initWebSocket :: "nat \<Rightarrow> RemoteSocketSource \<Rightarrow> RemoteSocketSource \<times> SocketEffect list" where
  "initWebSocket newWs s =
     (s\<lparr>ws := Some newWs\<rparr>,
      [StatusCallback (onStatusChange s) ''CONNECTING TO RELAY...'',
       NewWebSocket newWs (relayUrl s)])"

text \<open>
  \<open>connect(context, onAudioData)\<close>; \<open>isOpen\<close> is \<open>this.ws.readyState === WebSocket.OPEN\<close>
  and \<open>newWs\<close> the socket that \<open>initWebSocket\<close> would create.
\<close>

definition connect :: "nat \<Rightarrow> bool \<Rightarrow> nat \<Rightarrow> RemoteSocketSource \<Rightarrow> RemoteSocketSource \<times> SocketEffect list" where
  "connect onAudioData isOpen newWs s =
     (let s1 = s\<lparr>propagateAudio := Some onAudioData\<rparr> in
      if ws s1 = None \<or> \<not> isOpen then initWebSocket newWs s1 else (s1, []))"

definition disconnect :: "RemoteSocketSource \<Rightarrow> RemoteSocketSource \<times> SocketEffect list" where
  "disconnect s =
     (s\<lparr>ws := None, propagateAudio := None\<rparr>,
      case ws s of Some w \<Rightarrow> [CloseWebSocket w] | None \<Rightarrow> [])"

definition ws_onopen :: "RemoteSocketSource \<Rightarrow> RemoteSocketSource \<times> SocketEffect list" where
  "ws_onopen s =
     (s, (case ws s of Some w \<Rightarrow> [SendRegisterHost w (hostId s)] | None \<Rightarrow> [])
       @ [StatusCallback (onStatusChange s) ''WAITING FOR CALL...''])"

definition ws_onmessage :: "(string \<Rightarrow> string) \<Rightarrow> RelayFrame \<Rightarrow> RemoteSocketSource \<Rightarrow> RemoteSocketSource \<times> SocketEffect list" where
  "ws_onmessage btoa frame s =
     (case frame of
        Binary buffer \<Rightarrow>
          (case propagateAudio s of
             Some cb \<Rightarrow> (s, [AudioCallback cb (arrayBufferToBase64 btoa buffer) ''audio/pcm;rate=16000''])
           | None \<Rightarrow> (s, []))
      | Text (GUEST_CONNECTED callerName) \<Rightarrow>
          (s, [StatusCallback (onStatusChange s) (''CALLER: '' @ callerName)])
      | Text GUEST_DISCONNECTED \<Rightarrow>
          (s, [StatusCallback (onStatusChange s) ''WAITING FOR CALL...''])
      | Text _ \<Rightarrow> (s, []))"

definition ws_onclose :: "RemoteSocketSource \<Rightarrow> RemoteSocketSource \<times> SocketEffect list" where
  "ws_onclose s = (s, [StatusCallback (onStatusChange s) ''RELAY DISCONNECTED''])"

text \<open>
  What the relay socket can make the source do: its three handlers, in any order and any
  number of times.
\<close>

datatype SocketEvent = WsOpen | WsMessage RelayFrame | WsClose

fun socket_step :: "(string \<Rightarrow> string) \<Rightarrow> SocketEvent \<Rightarrow> RemoteSocketSource \<Rightarrow> RemoteSocketSource \<times> SocketEffect list" where
  "socket_step btoa WsOpen s = ws_onopen s"
| "socket_step btoa (WsMessage frame) s = ws_onmessage btoa frame s"
| "socket_step btoa WsClose s = ws_onclose s"

fun socket_run :: "(string \<Rightarrow> string) \<Rightarrow> SocketEvent list \<Rightarrow> RemoteSocketSource \<Rightarrow> RemoteSocketSource \<times> SocketEffect list" where
  "socket_run btoa [] s = (s, [])"
| "socket_run btoa (e # es) s =
     (let (s1, fx1) = socket_step btoa e s; (s2, fx2) = socket_run btoa es s1
      in (s2, fx1 @ fx2))"

section \<open>Properties of the transition scheduler\<close>

subsection \<open>Where audio is played\<close>

lemma playBufferedAudio_plays:
  assumes "PlayAudio a \<in> set (snd (playBufferedAudio s))"
  shows "generatedForSig s = Some (currentSongSig s) \<and> bufferedAudio s = Some a
         \<and> fst (playBufferedAudio s) = s\<lparr>status := PLAYING\<rparr>"
  using assms by (auto simp: playBufferedAudio_def split: option.splits if_splits)

lemma currentSongSig_reset_logic: "currentSongSig (reset_logic sig now s) = sig"
  by (simp add: reset_logic_def Let_def)

lemma ready_check_plays:
  assumes "PlayAudio a \<in> set (snd (ready_check tleft (s, fx)))" and "PlayAudio a \<notin> set fx"
  shows "generatedForSig s = Some (currentSongSig s) \<and> bufferedAudio s = Some a
         \<and> fst (ready_check tleft (s, fx)) = s\<lparr>status := PLAYING\<rparr>"
proof -
  from assms have r: "status s = READY \<and> tleft < 12"
    by (auto simp: ready_check_def split: if_splits)
  with assms have "PlayAudio a \<in> set (snd (playBufferedAudio s))"
    by (auto simp: ready_check_def split: prod.splits)
  from playBufferedAudio_plays[OF this] r show ?thesis
    by (auto simp: ready_check_def split: prod.splits)
qed

lemma state_machine_plays:
  assumes "PlayAudio a \<in> set (snd (state_machine inp sig tleft s))"
  shows "generatedForSig s = Some (currentSongSig s) \<and> bufferedAudio s = Some a
         \<and> fst (state_machine inp sig tleft s) = s\<lparr>status := PLAYING\<rparr>"
proof (cases "status s = IDLE \<and> tleft < 45 \<and> tleft > 10")
  case True
  then have "snd (state_machine inp sig tleft s) \<in> {[], [ClearMainLoop], [StorageGet sig]}"
    by (auto simp: state_machine_def ready_check_def Let_def)
  with assms show ?thesis by auto
next
  case False
  then have "state_machine inp sig tleft s = ready_check tleft (s, [])"
    by (auto simp: state_machine_def)
  with assms ready_check_plays[of a tleft s "[]"] show ?thesis by simp
qed

lemma mainLoop_plays:
  assumes "PlayAudio a \<in> set (snd (mainLoop inp s))"
  shows "currentSongSig (fst (mainLoop inp s)) = signature_of inp
       \<and> generatedForSig (fst (mainLoop inp s)) = Some (signature_of inp)
       \<and> bufferedAudio (fst (mainLoop inp s)) = Some a"
proof -
  from assms obtain v where v: "runtimeId inp" "video inp = Some v" "\<not> (paused v \<or> duration v = 0)"
    by (auto simp: mainLoop_def split: option.splits if_splits)
  define s3 where "s3 = reset_logic (signature_of inp) (currentTime v) s"
  have eq: "mainLoop inp s = state_machine inp (signature_of inp) (duration v - currentTime v) s3"
    using v by (simp add: mainLoop_def s3_def Let_def)
  from assms state_machine_plays[of a inp "signature_of inp" "duration v - currentTime v" s3]
  have "generatedForSig s3 = Some (currentSongSig s3) \<and> bufferedAudio s3 = Some a
      \<and> fst (mainLoop inp s) = s3\<lparr>status := PLAYING\<rparr>"
    by (simp add: eq)
  moreover have "currentSongSig s3 = signature_of inp"
    by (simp add: s3_def currentSongSig_reset_logic)
  ultimately show ?thesis by simp
qed

lemma sched_step_plays:
  assumes "sched_step e c = (c', fx)" and "PlayAudio a \<in> set fx"
  shows "\<exists>inp. e = Tick inp \<and> currentSongSig (fst c') = signature_of inp
       \<and> generatedForSig (fst c') = Some (currentSongSig (fst c'))
       \<and> bufferedAudio (fst c') = Some a"
proof (cases e)
  case (Tick inp)
  obtain s armed where c: "c = (s, armed)" by (cases c)
  from assms Tick c have armed: armed by (auto split: if_splits)
  with assms Tick c have "fx = snd (mainLoop inp s)" "fst c' = fst (mainLoop inp s)"
    by (auto split: prod.splits)
  with assms(2) mainLoop_plays[of a inp s] Tick show ?thesis by simp
next
  case (StorageResult sig le en st)
  with assms show ?thesis
    by (cases c) (auto simp: storage_callback_def split: if_splits)
next
  case (IntroResponse sig le au)
  with assms show ?thesis by (cases c) auto
next
  case PlayRejected
  with assms show ?thesis by (cases c) (auto simp: play_rejected_def)
next
  case AudioEnded
  with assms show ?thesis by (cases c) (auto simp: audio_onended_def)
next
  case CooldownTimeout
  with assms show ?thesis by (cases c) auto
qed

lemma sched_log_plays:
  "(e, s', fx) \<in> set (sched_log evs c) \<Longrightarrow> PlayAudio a \<in> set fx \<Longrightarrow>
     \<exists>inp. e = Tick inp \<and> currentSongSig s' = signature_of inp
       \<and> generatedForSig s' = Some (currentSongSig s') \<and> bufferedAudio s' = Some a"
proof (induction evs arbitrary: c)
  case Nil
  then show ?case by simp
next
  case (Cons ev evs)
  obtain c' fx' where st: "sched_step ev c = (c', fx')" by (cases "sched_step ev c")
  from Cons.prems(1) st
  consider "(e, s', fx) = (ev, fst c', fx')" | "(e, s', fx) \<in> set (sched_log evs c')"
    by auto
  then show ?case
  proof cases
    case 1
    with st Cons.prems(2) sched_step_plays[of ev c c' fx' a] show ?thesis by auto
  next
    case 2
    from Cons.IH[OF this Cons.prems(2)] show ?thesis .
  qed
qed

text \<open>
  C1. In every run of the content script, from any state and over any sequence of ticks
  and callbacks, audio is played only by a tick, and at that moment
  \<open>generatedForSig\<close> equals \<open>currentSongSig\<close>, which is the signature the tick has just
  read from the page; the audio played is the buffered one. A non-empty buffer whose
  \<open>generatedForSig\<close> differs from \<open>currentSongSig\<close> is dropped by \<open>playBufferedAudio\<close>
  without being played.
\<close>

theorem C1_stale_buffer_never_played:
  "(\<forall>(e, s', fx) \<in> set (sched_log evs c). \<forall>a. PlayAudio a \<in> set fx \<longrightarrow>
      (\<exists>inp. e = Tick inp \<and> currentSongSig s' = signature_of inp
         \<and> generatedForSig s' = Some (currentSongSig s') \<and> bufferedAudio s' = Some a))
   \<and> (bufferedAudio s = Some b \<and> b \<noteq> [] \<and> generatedForSig s \<noteq> Some (currentSongSig s) \<longrightarrow>
        playBufferedAudio s =
          (s\<lparr>status := IDLE, bufferedAudio := None, generatedForSig := None\<rparr>, []))"
proof (intro conjI)
  show "\<forall>(e, s', fx) \<in> set (sched_log evs c). \<forall>a. PlayAudio a \<in> set fx \<longrightarrow>
      (\<exists>inp. e = Tick inp \<and> currentSongSig s' = signature_of inp
         \<and> generatedForSig s' = Some (currentSongSig s') \<and> bufferedAudio s' = Some a)"
    using sched_log_plays by blast
  show "bufferedAudio s = Some b \<and> b \<noteq> [] \<and> generatedForSig s \<noteq> Some (currentSongSig s) \<longrightarrow>
        playBufferedAudio s =
          (s\<lparr>status := IDLE, bufferedAudio := None, generatedForSig := None\<rparr>, [])"
    by (simp add: playBufferedAudio_def)
qed

theorem C1_stale_buffer_never_played_witness:
  "(Tick (scenario_tick 190 True False),
    \<lparr>status = PLAYING, currentSongSig = ''Song A|Artist A'', bufferedAudio = Some ''UklGRg'',
       generatedForSig = Some ''Song A|Artist A'', lastTime = 190\<rparr>,
    [StartDucking, PlayAudio ''UklGRg''])
     \<in> set (sched_log [Tick (scenario_tick 160 True False),
                       StorageResult ''Song A|Artist A'' False True False,
                       IntroResponse ''Song A|Artist A'' False (Some ''UklGRg''),
                       Tick (scenario_tick 190 True False)] (initial_state, True))
   \<and> playBufferedAudio
        \<lparr>status = READY, currentSongSig = ''Song A|Artist A'', bufferedAudio = Some ''UklGRg'',
         generatedForSig = None, lastTime = 10\<rparr>
      = (\<lparr>status = IDLE, currentSongSig = ''Song A|Artist A'', bufferedAudio = None,
          generatedForSig = None, lastTime = 10\<rparr>, [])"
proof -
  let ?evs = "[Tick (scenario_tick 160 True False),
               StorageResult ''Song A|Artist A'' False True False,
               IntroResponse ''Song A|Artist A'' False (Some ''UklGRg''),
               Tick (scenario_tick 190 True False)]"
  let ?stale = "\<lparr>status = READY, currentSongSig = ''Song A|Artist A'',
                 bufferedAudio = Some ''UklGRg'', generatedForSig = None, lastTime = 10\<rparr>"
  let ?played = "\<lparr>status = PLAYING, currentSongSig = ''Song A|Artist A'',
                  bufferedAudio = Some ''UklGRg'',
                  generatedForSig = Some ''Song A|Artist A'', lastTime = 190\<rparr>"
  note t = C1_stale_buffer_never_played[of ?evs "(initial_state, True)" ?stale "''UklGRg''"]
  have m: "(Tick (scenario_tick 190 True False), ?played, [StartDucking, PlayAudio ''UklGRg''])
             \<in> set (sched_log ?evs (initial_state, True))"
    by (simp add: initial_state_def scenario_tick_def mainLoop_def signature_of_def
        reset_logic_def state_machine_def ready_check_def Let_def storage_callback_def
        generate_intro_callback_def playBufferedAudio_def)
  from t m have "generatedForSig ?played = Some (currentSongSig ?played)"
    by fastforce
  moreover from t have "playBufferedAudio ?stale =
      (?stale\<lparr>status := IDLE, bufferedAudio := None, generatedForSig := None\<rparr>, [])"
    by simp
  ultimately show ?thesis using m by simp
qed

subsection \<open>The generation callback\<close>

text \<open>
  C6, as stated, fails: when the signature changed, the callback returns without moving
  to \<open>COOLDOWN\<close>.
\<close>

theorem C6_counterexample:
  "status (generate_intro_callback ''Song A|Artist A'' False (Some ''UklGRg'')
     \<lparr>status = IDLE, currentSongSig = ''Song B|Artist B'', bufferedAudio = None,
      generatedForSig = None, lastTime = 3\<rparr>) \<noteq> COOLDOWN"
  by (simp add: generate_intro_callback_def)

text \<open>
  C6, amended. When the response callback of a request made for \<open>sig\<close> runs and
  \<open>currentSongSig\<close> is no longer \<open>sig\<close>, the state is left as it is: the audio is not
  buffered and the status does not change. When the signatures still match, there was no
  communication error and the response carries audio, the audio is stored and the status
  becomes \<open>READY\<close>.
\<close>

theorem C6_completion_callback:
  "(currentSongSig s \<noteq> sig \<longrightarrow> generate_intro_callback sig lastError audio s = s)
   \<and> (\<not> lastError \<and> currentSongSig s = sig \<and> audio = Some a \<and> a \<noteq> [] \<longrightarrow>
        generate_intro_callback sig lastError audio s = s\<lparr>bufferedAudio := Some a, status := READY\<rparr>)"
  by (simp add: generate_intro_callback_def)

theorem C6_completion_callback_witness:
  "currentSongSig (initial_state\<lparr>currentSongSig := ''Song B|Artist B''\<rparr>) \<noteq> ''Song A|Artist A''
   \<and> generate_intro_callback ''Song A|Artist A'' False (Some ''UklGRg'')
        (initial_state\<lparr>currentSongSig := ''Song B|Artist B''\<rparr>)
      = initial_state\<lparr>currentSongSig := ''Song B|Artist B''\<rparr>
   \<and> generate_intro_callback ''Song A|Artist A'' False (Some ''UklGRg'')
        (initial_state\<lparr>currentSongSig := ''Song A|Artist A'', status := GENERATING\<rparr>)
      = initial_state\<lparr>currentSongSig := ''Song A|Artist A'', status := READY,
           bufferedAudio := Some ''UklGRg''\<rparr>"
  using C6_completion_callback[of "initial_state\<lparr>currentSongSig := ''Song B|Artist B''\<rparr>"
          "''Song A|Artist A''" False "Some ''UklGRg''" "''UklGRg''"]
        C6_completion_callback[of "initial_state\<lparr>currentSongSig := ''Song A|Artist A'', status := GENERATING\<rparr>"
          "''Song A|Artist A''" False "Some ''UklGRg''" "''UklGRg''"]
  by (simp add: initial_state_def)

subsection \<open>The seek scenario\<close>

text \<open>
  C8, as stated, fails in its last part: after the seek the signature is still
  "Song A|Artist A", so the response is not discarded when it arrives; it is stored and
  the status becomes \<open>READY\<close>.
\<close>

theorem C8_counterexample:
  "sched_run [Tick (scenario_tick 160 True False), StorageResult ''Song A|Artist A'' False True False,
              Tick (scenario_tick 10 True False), IntroResponse ''Song A|Artist A'' False (Some ''UklGRg'')]
     initial_state
   = \<lparr>status = READY, currentSongSig = ''Song A|Artist A'', bufferedAudio = Some ''UklGRg'',
      generatedForSig = None, lastTime = 10\<rparr>"
  by (simp add: sched_run_def initial_state_def scenario_tick_def mainLoop_def signature_of_def
      reset_logic_def state_machine_def ready_check_def storage_callback_def generate_intro_callback_def Let_def)

text \<open>
  C8, amended. A scheduler in \<open>IDLE\<close> that ticks at position 160 of the 200-second track
  "Song A" by "Artist A" moves to \<open>GENERATING\<close> with \<open>generatedForSig\<close> "Song A|Artist A".
  A later tick at position 10 resets it to \<open>IDLE\<close> and clears the buffer and
  \<open>generatedForSig\<close>. A response that arrives afterwards with audio and without a
  communication error is not discarded on arrival: right after the seek tick, and in any
  later state whose \<open>currentSongSig\<close> is still "Song A|Artist A", the audio is stored and
  the status becomes \<open>READY\<close>. In the state reached right after the seek tick
  \<open>generatedForSig\<close> is still cleared, and \<open>playBufferedAudio\<close> called in that state discards
  the buffer without playing it and returns to \<open>IDLE\<close>.
\<close>

theorem C8_seek_scenario:
  assumes "status s = IDLE"
  shows "let s1 = fst (mainLoop (scenario_tick 160 sa st) s);
             s2 = fst (mainLoop (scenario_tick 10 sa' st') s1)
         in status s1 = GENERATING \<and> generatedForSig s1 = Some ''Song A|Artist A''
          \<and> status s2 = IDLE \<and> bufferedAudio s2 = None \<and> generatedForSig s2 = None
          \<and> currentSongSig s2 = ''Song A|Artist A''
          \<and> (a \<noteq> [] \<longrightarrow>
               generate_intro_callback ''Song A|Artist A'' False (Some a) s2
                 = s2\<lparr>bufferedAudio := Some a, status := READY\<rparr>
             \<and> playBufferedAudio (s2\<lparr>bufferedAudio := Some a, status := READY\<rparr>) = (s2, []))
          \<and> (a \<noteq> [] \<and> currentSongSig t = ''Song A|Artist A'' \<longrightarrow>
               generate_intro_callback ''Song A|Artist A'' False (Some a) t
                 = t\<lparr>bufferedAudio := Some a, status := READY\<rparr>)"
proof -
  define s1 where "s1 = fst (mainLoop (scenario_tick 160 sa st) s)"
  define s2 where "s2 = fst (mainLoop (scenario_tick 10 sa' st') s1)"
  have r1: "status (reset_logic ''Song A|Artist A'' 160 s) = IDLE"
    using assms by (simp add: reset_logic_def Let_def)
  have s1: "status s1 = GENERATING \<and> generatedForSig s1 = Some ''Song A|Artist A''
            \<and> currentSongSig s1 = ''Song A|Artist A'' \<and> lastTime s1 = 160"
    using r1 currentSongSig_reset_logic[of "''Song A|Artist A''" 160 s]
    by (simp add: s1_def mainLoop_def scenario_tick_def signature_of_def state_machine_def
        ready_check_def Let_def) (simp add: reset_logic_def Let_def)
  have s2: "status s2 = IDLE \<and> bufferedAudio s2 = None \<and> generatedForSig s2 = None
            \<and> currentSongSig s2 = ''Song A|Artist A''"
    using s1
    by (simp add: s2_def mainLoop_def scenario_tick_def signature_of_def state_machine_def
        ready_check_def reset_logic_def Let_def)
  have s3: "a \<noteq> [] \<longrightarrow> generate_intro_callback ''Song A|Artist A'' False (Some a) s2
                 = s2\<lparr>bufferedAudio := Some a, status := READY\<rparr>"
    using s2 by (simp add: generate_intro_callback_def)
  have p: "a \<noteq> [] \<longrightarrow>
      playBufferedAudio (s2\<lparr>bufferedAudio := Some a, status := READY\<rparr>) = (s2, [])"
    using s2 by (cases s2) (simp add: playBufferedAudio_def)
  have g: "a \<noteq> [] \<and> currentSongSig t = ''Song A|Artist A'' \<longrightarrow>
               generate_intro_callback ''Song A|Artist A'' False (Some a) t
                 = t\<lparr>bufferedAudio := Some a, status := READY\<rparr>"
    by (simp add: generate_intro_callback_def)
  from s1 s2 s3 p g show ?thesis
    unfolding s1_def s2_def Let_def by blast
qed

theorem C8_seek_scenario_witness:
  "status initial_state = IDLE
   \<and> status (fst (mainLoop (scenario_tick 160 True False) initial_state)) = GENERATING
   \<and> fst (mainLoop (scenario_tick 10 True False)
         (fst (mainLoop (scenario_tick 160 True False) initial_state)))
     = \<lparr>status = IDLE, currentSongSig = ''Song A|Artist A'', bufferedAudio = None,
        generatedForSig = None, lastTime = 10\<rparr>
   \<and> generate_intro_callback ''Song A|Artist A'' False (Some ''UklGRg'')
       \<lparr>status = IDLE, currentSongSig = ''Song A|Artist A'', bufferedAudio = None,
        generatedForSig = None, lastTime = 10\<rparr>
     = \<lparr>status = READY, currentSongSig = ''Song A|Artist A'', bufferedAudio = Some ''UklGRg'',
        generatedForSig = None, lastTime = 10\<rparr>
   \<and> playBufferedAudio
       \<lparr>status = READY, currentSongSig = ''Song A|Artist A'', bufferedAudio = Some ''UklGRg'',
        generatedForSig = None, lastTime = 10\<rparr>
     = (\<lparr>status = IDLE, currentSongSig = ''Song A|Artist A'', bufferedAudio = None,
         generatedForSig = None, lastTime = 10\<rparr>, [])"
proof -
  have h: "status initial_state = IDLE" by (simp add: initial_state_def)
  have e: "fst (mainLoop (scenario_tick 10 True False)
         (fst (mainLoop (scenario_tick 160 True False) initial_state)))
     = \<lparr>status = IDLE, currentSongSig = ''Song A|Artist A'', bufferedAudio = None,
        generatedForSig = None, lastTime = 10\<rparr>"
    by (simp add: initial_state_def scenario_tick_def mainLoop_def signature_of_def
        reset_logic_def state_machine_def ready_check_def Let_def)
  note t = C8_seek_scenario[OF h, of True False True False "''UklGRg''"
      "\<lparr>status = IDLE, currentSongSig = ''Song A|Artist A'', bufferedAudio = None,
        generatedForSig = None, lastTime = 10\<rparr>", unfolded Let_def e]
  from t have g: "status (fst (mainLoop (scenario_tick 160 True False) initial_state)) = GENERATING"
    by blast
  from t have c: "generate_intro_callback ''Song A|Artist A'' False (Some ''UklGRg'')
       \<lparr>status = IDLE, currentSongSig = ''Song A|Artist A'', bufferedAudio = None,
        generatedForSig = None, lastTime = 10\<rparr>
     = \<lparr>status = READY, currentSongSig = ''Song A|Artist A'', bufferedAudio = Some ''UklGRg'',
        generatedForSig = None, lastTime = 10\<rparr>"
    by simp
  from t have p: "playBufferedAudio
       \<lparr>status = READY, currentSongSig = ''Song A|Artist A'', bufferedAudio = Some ''UklGRg'',
        generatedForSig = None, lastTime = 10\<rparr>
     = (\<lparr>status = IDLE, currentSongSig = ''Song A|Artist A'', bufferedAudio = None,
         generatedForSig = None, lastTime = 10\<rparr>, [])"
    by simp
  from h g e c p show ?thesis by blast
qed

section \<open>Properties of double-precision rounding\<close>

lemma round_even_of_int: "round_even (of_int m) = m"
  by (simp add: round_even_def)

lemma round_even_bounds: "\<lfloor>y\<rfloor> \<le> round_even y \<and> round_even y \<le> \<lfloor>y\<rfloor> + 1"
  by (simp add: round_even_def Let_def)

lemma round_even_mono:
  assumes "a \<le> b"
  shows "round_even a \<le> round_even b"
proof (cases "\<lfloor>a\<rfloor> = \<lfloor>b\<rfloor>")
  case True
  with assms show ?thesis by (auto simp: round_even_def Let_def)
next
  case False
  with assms have "\<lfloor>a\<rfloor> < \<lfloor>b\<rfloor>" using floor_mono[OF assms] by linarith
  with round_even_bounds[of a] round_even_bounds[of b] show ?thesis by linarith
qed

lemma ulp_pos: "0 < ulp x"
  by (simp add: ulp_def)

lemma floor_log2_bounds:
  assumes "0 < x"
  shows "2 powr of_int \<lfloor>log 2 x\<rfloor> \<le> x" and "x < 2 powr (of_int \<lfloor>log 2 x\<rfloor> + 1)"
proof -
  have "of_int \<lfloor>log 2 x\<rfloor> \<le> log 2 x" by simp
  with le_log_iff[of 2 x "of_int \<lfloor>log 2 x\<rfloor>"] assms
  show "2 powr of_int \<lfloor>log 2 x\<rfloor> \<le> x" by simp
  have "log 2 x < of_int \<lfloor>log 2 x\<rfloor> + 1" by linarith
  with log_less_iff[of 2 x "of_int \<lfloor>log 2 x\<rfloor> + 1"] assms
  show "x < 2 powr (of_int \<lfloor>log 2 x\<rfloor> + 1)" by simp
qed

lemma binade_eq:
  assumes "0 < x" and "2 powr of_int e \<le> x" and "x < 2 powr (of_int e + 1)"
  shows "\<lfloor>log 2 x\<rfloor> = e"
proof -
  have "of_int e \<le> log 2 x" using le_log_iff[of 2 x "of_int e"] assms by simp
  moreover have "log 2 x < of_int e + 1" using log_less_iff[of 2 x "of_int e + 1"] assms by simp
  ultimately show ?thesis by linarith
qed

lemma ulp_times:
  shows "ulp x * 2 ^ 53 = 2 powr (of_int (binade x) + 1)"
    and "ulp x * 2 ^ 52 = 2 powr of_int (binade x)"
proof -
  have "(2::real) powr (of_int (binade x) - 52 + 53) = 2 powr (of_int (binade x) - 52) * 2 powr 53"
    by (rule powr_add)
  moreover have "of_int (binade x) - 52 + 53 = (of_int (binade x) + 1 :: real)" by simp
  moreover have "(2::real) powr 53 = 2 ^ 53" by simp
  ultimately show "ulp x * 2 ^ 53 = 2 powr (of_int (binade x) + 1)"
    by (simp only: ulp_def)
  have "(2::real) powr (of_int (binade x) - 52 + 52) = 2 powr (of_int (binade x) - 52) * 2 powr 52"
    by (rule powr_add)
  moreover have "of_int (binade x) - 52 + 52 = (of_int (binade x) :: real)" by simp
  moreover have "(2::real) powr 52 = 2 ^ 52" by simp
  ultimately show "ulp x * 2 ^ 52 = 2 powr of_int (binade x)"
    by (simp only: ulp_def)
qed

lemma scaled_below:
  assumes "0 < x"
  shows "x / ulp x < 2 ^ 53"
proof -
  have "x < 2 powr (of_int \<lfloor>log 2 x\<rfloor> + 1)" using floor_log2_bounds[OF assms] by simp
  also have "\<dots> \<le> 2 powr (of_int (binade x) + 1)"
    by (simp add: binade_def)
  also have "\<dots> = ulp x * 2 ^ 53"
    by (simp only: ulp_times)
  finally have "x < ulp x * 2 ^ 53" .
  then show ?thesis using ulp_pos[of x] by (simp add: field_simps)
qed

lemma scaled_above:
  assumes "0 < x" and "- 1022 \<le> \<lfloor>log 2 x\<rfloor>"
  shows "2 ^ 52 \<le> x / ulp x"
proof -
  have b: "binade x = \<lfloor>log 2 x\<rfloor>" using assms by (simp add: binade_def)
  have "ulp x * 2 ^ 52 = 2 powr of_int \<lfloor>log 2 x\<rfloor>"
    using ulp_times(2)[of x] by (simp only: b)
  also have "\<dots> \<le> x" using floor_log2_bounds[OF assms(1)] by simp
  finally have "ulp x * 2 ^ 52 \<le> x" .
  then show ?thesis using ulp_pos[of x] by (simp add: field_simps)
qed

lemma binade_mono:
  assumes "0 < x" and "x \<le> y"
  shows "binade x \<le> binade y"
proof -
  have "log 2 x \<le> log 2 y" using assms by simp
  then have "\<lfloor>log 2 x\<rfloor> \<le> \<lfloor>log 2 y\<rfloor>" by (rule floor_mono)
  then show ?thesis by (simp add: binade_def)
qed

lemma double_round_0: "double_round 0 = 0"
  by (simp add: double_round_def)

lemma double_round_pos:
  "0 < x \<Longrightarrow> double_round x = of_int (round_even (x / ulp x)) * ulp x"
  by (simp add: double_round_def)

lemma double_round_neg:
  "x < 0 \<Longrightarrow> double_round x = - double_round (- x)"
  by (simp add: double_round_def)

lemma double_round_nonneg: "0 \<le> x \<Longrightarrow> 0 \<le> double_round x"
proof -
  assume "0 \<le> x"
  then have "0 \<le> x / ulp x" using ulp_pos[of x] by simp
  from round_even_mono[OF this] have "0 \<le> round_even (x / ulp x)"
    using round_even_of_int[of 0] by simp
  then show ?thesis using \<open>0 \<le> x\<close> ulp_pos[of x]
    by (cases "x = 0") (simp_all add: double_round_0 double_round_pos)
qed

lemma double_round_upper:
  assumes "0 < x"
  shows "double_round x \<le> 2 powr (of_int (binade x) + 1)"
proof -
  have "x / ulp x \<le> of_int (2 ^ 53)" using scaled_below[OF assms] by simp
  from round_even_mono[OF this] have "round_even (x / ulp x) \<le> 2 ^ 53"
    by (simp only: round_even_of_int)
  then have "of_int (round_even (x / ulp x)) \<le> (2 ^ 53 :: real)"
    by (metis of_int_le_iff of_int_numeral of_int_power)
  then have "of_int (round_even (x / ulp x)) * ulp x \<le> 2 ^ 53 * ulp x"
    using ulp_pos[of x] by (simp only: mult_le_cancel_right_pos)
  then show ?thesis using ulp_times(1)[of x]
    by (simp add: double_round_pos[OF assms] mult.commute)
qed

lemma double_round_lower:
  assumes "0 < x" and "- 1022 \<le> \<lfloor>log 2 x\<rfloor>"
  shows "2 powr of_int (binade x) \<le> double_round x"
proof -
  have "of_int (2 ^ 52) \<le> x / ulp x" using scaled_above[OF assms] by simp
  from round_even_mono[OF this] have "2 ^ 52 \<le> round_even (x / ulp x)"
    by (simp only: round_even_of_int)
  then have "(2 ^ 52 :: real) \<le> of_int (round_even (x / ulp x))"
    by (metis of_int_le_iff of_int_numeral of_int_power)
  then have "2 ^ 52 * ulp x \<le> of_int (round_even (x / ulp x)) * ulp x"
    using ulp_pos[of x] by (simp only: mult_le_cancel_right_pos)
  then show ?thesis using ulp_times(2)[of x]
    by (simp add: double_round_pos[OF assms(1)] mult.commute)
qed

lemma double_round_mono_pos:
  assumes "0 < x" and "x \<le> y"
  shows "double_round x \<le> double_round y"
proof (cases "binade x = binade y")
  case True
  then have u: "ulp x = ulp y" by (simp add: ulp_def)
  have "x / ulp y \<le> y / ulp y" using assms ulp_pos[of y] by (simp add: divide_right_mono)
  from round_even_mono[OF this]
  have "(of_int (round_even (x / ulp y)) :: real) \<le> of_int (round_even (y / ulp y))" by simp
  then have "of_int (round_even (x / ulp y)) * ulp y \<le> of_int (round_even (y / ulp y)) * ulp y"
    using ulp_pos[of y] by (simp only: mult_le_cancel_right_pos)
  then show ?thesis using assms by (simp add: double_round_pos u)
next
  case False
  with binade_mono[OF assms] have lt: "binade x < binade y" by simp
  have y: "0 < y" using assms by simp
  have "- 1022 \<le> binade x" by (simp add: binade_def)
  with lt have n: "- 1022 \<le> \<lfloor>log 2 y\<rfloor>" unfolding binade_def by linarith
  have "double_round x \<le> 2 powr (of_int (binade x) + 1)" by (rule double_round_upper[OF assms(1)])
  also have "\<dots> \<le> 2 powr of_int (binade y)"
  proof -
    have "of_int (binade x) + 1 \<le> (of_int (binade y) :: real)" using lt by linarith
    then show ?thesis by simp
  qed
  also have "\<dots> \<le> double_round y" by (rule double_round_lower[OF y n])
  finally show ?thesis .
qed

lemma double_round_mono:
  assumes "x \<le> y"
  shows "double_round x \<le> double_round y"
proof -
  consider "0 < x" | "x \<le> 0" "0 \<le> y" | "y < 0" by linarith
  then show ?thesis
  proof cases
    case 1
    then show ?thesis using assms by (rule double_round_mono_pos)
  next
    case 2
    have "double_round x \<le> 0"
    proof (cases "x = 0")
      case True then show ?thesis by (simp add: double_round_0)
    next
      case False
      with 2 have "x < 0" by simp
      then show ?thesis using double_round_nonneg[of "- x"] by (simp add: double_round_neg)
    qed
    with double_round_nonneg[OF 2(2)] show ?thesis by simp
  next
    case 3
    then have "0 < - y" "- y \<le> - x" "x < 0" using assms by simp_all
    from double_round_mono_pos[OF this(1,2)] 3 \<open>x < 0\<close> show ?thesis
      by (simp add: double_round_neg)
  qed
qed

lemma double_round_fix_normal:
  assumes "2 ^ 52 \<le> m" and "m < 2 ^ 53" and "- 1074 \<le> k"
  shows "double_round (of_int m * 2 powr of_int k) = of_int m * 2 powr of_int k"
proof -
  define x :: real where "x = of_int m * 2 powr of_int k"
  have mr: "(2 ^ 52 :: real) \<le> of_int m" "of_int m < (2 ^ 53 :: real)"
    using assms(1,2) by (metis of_int_le_iff of_int_numeral of_int_power,
        metis of_int_less_iff of_int_numeral of_int_power)
  have pos: "0 < x" using mr by (simp add: x_def)
  have p52: "(2::real) powr (of_int (52 + k)) = 2 ^ 52 * 2 powr of_int k"
  proof -
    have "(2::real) powr (52 + of_int k) = 2 powr 52 * 2 powr of_int k" by (rule powr_add)
    then show ?thesis by simp
  qed
  have p53: "(2::real) powr (of_int (52 + k) + 1) = 2 ^ 53 * 2 powr of_int k"
  proof -
    have "(2::real) powr (53 + of_int k) = 2 powr 53 * 2 powr of_int k" by (rule powr_add)
    moreover have "of_int (52 + k) + 1 = (53 + of_int k :: real)" by simp
    ultimately show ?thesis by simp
  qed
  have lo: "2 powr of_int (52 + k) \<le> x"
    unfolding p52 x_def using mr(1) by (simp only: mult_le_cancel_right_pos powr_gt_zero zero_less_numeral)
  have hi: "x < 2 powr (of_int (52 + k) + 1)"
    unfolding p53 x_def using mr(2) by (simp only: mult_less_cancel_right_pos powr_gt_zero zero_less_numeral)
  have fl: "\<lfloor>log 2 x\<rfloor> = 52 + k" by (rule binade_eq[OF pos lo hi])
  have b: "binade x = 52 + k" using assms(3) by (simp add: binade_def fl)
  have u: "ulp x = 2 powr of_int k" by (simp add: ulp_def b)
  have "x / ulp x = of_int m" unfolding u by (simp add: x_def)
  then have "double_round x = of_int m * ulp x"
    by (simp add: double_round_pos[OF pos] round_even_of_int)
  then have "double_round x = of_int m * 2 powr of_int k" by (simp only: u)
  then show ?thesis by (simp only: x_def)
qed

lemma double_round_fix_subnormal:
  assumes "0 \<le> m" and "m < 2 ^ 52"
  shows "double_round (of_int m * 2 powr (- 1074)) = of_int m * 2 powr (- 1074)"
proof (cases "m = 0")
  case True
  then show ?thesis by (simp add: double_round_0)
next
  case False
  define x :: real where "x = of_int m * 2 powr (- 1074)"
  have mr: "0 < (of_int m :: real)" "of_int m < (2 ^ 52 :: real)"
    using assms False by (simp, metis of_int_less_iff of_int_numeral of_int_power)
  have pos: "0 < x" using mr by (simp add: x_def)
  have p: "(2::real) powr (- 1022) = 2 ^ 52 * 2 powr (- 1074)"
  proof -
    have "(2::real) powr (52 + (- 1074)) = 2 powr 52 * 2 powr (- 1074)" by (rule powr_add)
    then show ?thesis by simp
  qed
  have "x < 2 powr (- 1022)"
    unfolding p x_def using mr(2) by (simp only: mult_less_cancel_right_pos powr_gt_zero zero_less_numeral)
  then have "log 2 x < - 1022" using pos log_less_iff[of 2 x "- 1022"] by simp
  then have "\<lfloor>log 2 x\<rfloor> < - 1022" by linarith
  then have b: "binade x = - 1022" by (simp add: binade_def)
  have u: "ulp x = 2 powr (- 1074)" by (simp add: ulp_def b)
  have "x / ulp x = of_int m" unfolding u by (simp add: x_def)
  then have "double_round x = of_int m * ulp x"
    by (simp add: double_round_pos[OF pos] round_even_of_int)
  then have "double_round x = of_int m * 2 powr (- 1074)" by (simp only: u)
  then show ?thesis by (simp only: x_def)
qed

lemma double_round_minus: "double_round (- x) = - double_round x"
  by (simp add: double_round_def)

lemma ulp_eq: "ulp x = 2 powr of_int (binade x - 52)"
  by (simp add: ulp_def)

lemma double_round_idem_pos:
  assumes "0 < x"
  shows "double_round (double_round x) = double_round x"
proof -
  define m where "m = round_even (x / ulp x)"
  define k where "k = binade x - 52"
  have dr: "double_round x = of_int m * 2 powr of_int k"
    by (simp only: double_round_pos[OF assms] m_def k_def ulp_eq)
  have k: "- 1074 \<le> k" by (simp add: k_def binade_def)
  have "0 \<le> x / ulp x" using assms ulp_pos[of x] by simp
  from round_even_mono[OF this] have m0: "0 \<le> m"
    using round_even_of_int[of 0] by (simp add: m_def)
  have "x / ulp x \<le> of_int (2 ^ 53)" using scaled_below[OF assms] by simp
  from round_even_mono[OF this] have m53: "m \<le> 2 ^ 53"
    by (simp only: round_even_of_int m_def)
  have top: "double_round (of_int (2 ^ 53) * 2 powr of_int k) = of_int (2 ^ 53) * 2 powr of_int k"
  proof -
    have "(2::real) powr (1 + of_int k) = 2 powr 1 * 2 powr of_int k" by (rule powr_add)
    then have e: "of_int (2 ^ 53) * 2 powr of_int k = (of_int (2 ^ 52) * 2 powr of_int (k + 1) :: real)"
      by (simp add: add.commute)
    have "- 1074 \<le> k + 1" using k by simp
    from double_round_fix_normal[of "2 ^ 52" "k + 1", OF _ _ this] show ?thesis
      by (simp only: e) simp
  qed
  show ?thesis
  proof (cases "- 1022 \<le> \<lfloor>log 2 x\<rfloor>")
    case True
    have "of_int (2 ^ 52) \<le> x / ulp x" using scaled_above[OF assms True] by simp
    from round_even_mono[OF this] have m52: "2 ^ 52 \<le> m"
      by (simp only: round_even_of_int m_def)
    show ?thesis
    proof (cases "m = 2 ^ 53")
      case True
      with top show ?thesis by (simp only: dr)
    next
      case False
      with m53 have "m < 2 ^ 53" by simp
      from double_round_fix_normal[OF m52 this k] show ?thesis by (simp only: dr)
    qed
  next
    case False
    then have b: "binade x = - 1022" by (simp add: binade_def)
    then have k': "k = - 1074" by (simp add: k_def)
    have "x < 2 powr (of_int \<lfloor>log 2 x\<rfloor> + 1)" using floor_log2_bounds[OF assms] by simp
    also have "\<dots> \<le> 2 powr of_int (binade x)"
    proof -
      have "of_int \<lfloor>log 2 x\<rfloor> + 1 \<le> (of_int (binade x) :: real)"
        using False unfolding b by linarith
      then show ?thesis by simp
    qed
    also have "\<dots> = ulp x * 2 ^ 52" by (simp only: ulp_times)
    finally have "x / ulp x \<le> of_int (2 ^ 52)" using ulp_pos[of x] by (simp add: field_simps)
    from round_even_mono[OF this] have m52: "m \<le> 2 ^ 52"
      by (simp only: round_even_of_int m_def)
    show ?thesis
    proof (cases "m = 2 ^ 52")
      case True
      have "(2 ^ 52 :: int) \<le> 2 ^ 52" "(2 ^ 52 :: int) < 2 ^ 53" by simp_all
      from double_round_fix_normal[OF this k] True show ?thesis by (simp only: dr)
    next
      case False
      with m52 have "m < 2 ^ 52" by simp
      from double_round_fix_subnormal[OF m0 this] show ?thesis
        by (simp only: dr k') simp
    qed
  qed
qed

lemma double_round_idem: "double_round (double_round x) = double_round x"
proof -
  consider "0 < x" | "x = 0" | "x < 0" by linarith
  then show ?thesis
  proof cases
    case 1 then show ?thesis by (rule double_round_idem_pos)
  next
    case 2 then show ?thesis by (simp add: double_round_0)
  next
    case 3
    then have "0 < - x" by simp
    from double_round_idem_pos[OF this] show ?thesis
      by (simp add: double_round_minus)
  qed
qed

lemma is_double_round: "is_double (double_round x)"
  by (simp add: is_double_def double_round_idem)

lemma is_double_max: "is_double a \<Longrightarrow> is_double b \<Longrightarrow> is_double (max a b)"
  by (simp add: max_def)

lemma double_round_grows:
  assumes "is_double a" and "0 \<le> d"
  shows "a \<le> double_round (a + d)"
proof -
  have "double_round a \<le> double_round (a + d)" using assms(2) by (intro double_round_mono) simp
  then show ?thesis using assms(1) by (simp add: is_double_def)
qed

lemma double_round_int:
  assumes "x \<in> \<int>" and "\<bar>x\<bar> < 2 ^ 53"
  shows "double_round x = x"
proof -
  have pos: "double_round y = y" if y: "y \<in> \<int>" "0 < y" "y < 2 ^ 53" for y :: real
  proof -
    from y(1) obtain n :: int where n: "y = of_int n" by (auto elim: Ints_cases)
    have n1: "1 \<le> y" using y(2) n by simp
    define e where "e = \<lfloor>log 2 y\<rfloor>"
    have "0 \<le> log 2 y" using n1 by simp
    then have e0: "0 \<le> e" by (simp add: e_def)
    have "log 2 y < 53" using y(2,3) log_less_iff[of 2 y 53] by simp
    then have e52: "e \<le> 52" unfolding e_def by linarith
    have b: "binade y = e" using e0 by (simp add: binade_def e_def)
    define j where "j = nat (52 - e)"
    have j: "(of_int (52 - e) :: real) = real j" using e52 by (simp add: j_def)
    have p: "(2::real) powr of_int (52 - e) = 2 ^ j"
      unfolding j by (simp add: powr_realpow)
    have u: "ulp y = 1 / 2 ^ j"
    proof -
      have "ulp y = 2 powr (- of_int (52 - e))" by (simp add: ulp_def b)
      also have "\<dots> = 1 / 2 powr of_int (52 - e)" by (simp only: powr_minus_divide)
      finally show ?thesis by (simp only: p)
    qed
    have s: "y / ulp y = of_int (n * 2 ^ j)" unfolding u by (simp add: n)
    have "double_round y = of_int (n * 2 ^ j) * ulp y"
      by (simp only: double_round_pos[OF y(2)] s round_even_of_int)
    then have "double_round y = of_int (n * 2 ^ j) * (1 / 2 ^ j)" by (simp only: u)
    then show ?thesis by (simp add: n)
  qed
  consider "0 < x" | "x = 0" | "x < 0" by linarith
  then show ?thesis
  proof cases
    case 1 with assms pos[of x] show ?thesis by simp
  next
    case 2 then show ?thesis by (simp add: double_round_0)
  next
    case 3
    with assms pos[of "- x"] have "double_round (- x) = - x" by simp
    then show ?thesis by (simp add: double_round_minus)
  qed
qed

lemma double_round_normal:
  assumes "0 < x" and "2 powr of_int e \<le> x" and "x < 2 powr (of_int e + 1)" and "- 1022 \<le> e"
  shows "double_round x = of_int (round_even (x / 2 powr of_int (e - 52))) * 2 powr of_int (e - 52)"
proof -
  have "\<lfloor>log 2 x\<rfloor> = e" by (rule binade_eq[OF assms(1,2,3)])
  then have "binade x = e" using assms(4) by (simp add: binade_def)
  then have "ulp x = 2 powr of_int (e - 52)" by (simp add: ulp_def)
  then show ?thesis by (simp only: double_round_pos[OF assms(1)])
qed

lemma double_round_example:
  "double_round (28823037615171173 / 36028797018963968) = 7205759403792793 / 9007199254740992"
proof -
  have "double_round (28823037615171173 / 36028797018963968)
      = of_int (round_even (28823037615171173 / 36028797018963968 / 2 powr of_int (- 1 - 52)))
          * 2 powr of_int (- 1 - 52)"
    by (rule double_round_normal) (simp_all add: powr_minus_divide)
  also have "\<dots> = 7205759403792793 / 9007199254740992"
    by (simp add: powr_minus_divide round_even_def)
  finally show ?thesis .
qed

section \<open>Properties of the live call service\<close>

subsection \<open>Teardown\<close>

lemma cleanupSession_inactive: "\<not> isLiveActive (fst (cleanupSession graceful s))"
  by (simp add: cleanupSession_def Let_def)

lemma cleanupSession_sources: "liveSources (fst (cleanupSession graceful s)) = liveSources s"
  by (simp add: cleanupSession_def Let_def)

lemma cleanupSession_config: "config (fst (cleanupSession graceful s)) = config s"
  by (simp add: cleanupSession_def Let_def)

lemma cleanupSession_release:
  "e \<in> set (snd (cleanupSession graceful s)) \<Longrightarrow> is_release e \<Longrightarrow> liveSources s = []"
  by (auto simp: cleanupSession_def Let_def is_release_def split: if_splits option.splits)

lemma cleanupSession_no_stop: "SourceStop src \<notin> set (snd (cleanupSession graceful s))"
  by (auto simp: cleanupSession_def Let_def close_output_def call_end_def
      split: if_splits option.splits)

lemma source_ended_sources:
  "liveSources (fst (source_ended sid src t)) = removeAll src (liveSources t)"
  by (simp add: source_ended_def Let_def)

lemma source_ended_release:
  "e \<in> set (snd (source_ended sid src t)) \<Longrightarrow> removeAll src (liveSources t) = []"
  by (auto simp: source_ended_def Let_def split: if_splits)

lemma source_ended_last:
  "\<not> isLiveActive t \<Longrightarrow> sid = currentSessionId t \<Longrightarrow> removeAll src (liveSources t) = [] \<Longrightarrow>
     snd (source_ended sid src t) = close_output t @ call_end t"
  by (simp add: source_ended_def Let_def close_output_def call_end_def)

lemma live_run_append:
  "live_run (xs @ ys) s =
     (fst (live_run ys (fst (live_run xs s))),
      snd (live_run xs s) @ snd (live_run ys (fst (live_run xs s))))"
  by (induction xs arbitrary: s) (simp_all add: case_prod_unfold Let_def)

lemma live_run_snoc:
  "live_run (xs @ [e]) s =
     (fst (live_step e (fst (live_run xs s))),
      snd (live_run xs s) @ snd (live_step e (fst (live_run xs s))))"
  by (simp add: live_run_append case_prod_unfold Let_def)

lemma tool_call_effects:
  "e \<in> set (handle_tool_calls now msg s) \<Longrightarrow> e = SendToolResponse \<or> (\<exists>ms. e = ScheduleCleanup ms)"
  by (auto simp: handle_tool_calls_def split: option.splits if_splits)

lemma cleanupSession_effects:
  "e \<in> set (snd (cleanupSession graceful s)) \<Longrightarrow>
     (\<exists>m. e = StopStreamTracks m) \<or> (\<exists>c. e = CloseInputContext c)
     \<or> (\<exists>i. e = ClearSilenceInterval i) \<or> (\<exists>c. e = CloseOutputContext c) \<or> (\<exists>c. e = OnCallEnd c)"
  by (auto simp: cleanupSession_def Let_def close_output_def call_end_def
      split: if_splits option.splits)

lemma startSession_effects:
  "e \<in> set (snd (startSession cfg env s)) \<Longrightarrow>
     (\<forall>src t d. e \<noteq> SourceStart src t d) \<and> (\<forall>src. e \<noteq> SourceStop src)"
  by (auto simp: startSession_def start_catch_def unrecoverable_error_def Let_def case_prod_unfold
      split: option.splits StartFailure.splits dest!: cleanupSession_effects)

lemma onmessage_effects:
  "e \<in> set (snd (onmessage now msg s)) \<Longrightarrow>
     (\<exists>src. e = SourceStop src \<and> src \<in> set (liveSources s)
         \<and> (\<exists>sc. serverContent msg = Some sc \<and> interrupted sc))
     \<or> e = SendToolResponse \<or> (\<exists>ms. e = ScheduleCleanup ms) \<or> (\<exists>d. e = DecodeAudio d)"
  by (auto simp: onmessage_def handle_interrupted_def Let_def case_prod_unfold
      split: option.splits if_splits dest!: tool_call_effects)

lemma onmessage_sources:
  "liveSources (fst (onmessage now msg s)) =
     (if (\<exists>sc. serverContent msg = Some sc \<and> interrupted sc) then [] else liveSources s)"
  by (auto simp: onmessage_def handle_interrupted_def Let_def case_prod_unfold
      split: option.splits)

lemma onmessage_stops:
  "serverContent msg = Some sc \<Longrightarrow> interrupted sc \<Longrightarrow> src \<in> set (liveSources s) \<Longrightarrow>
     SourceStop src \<in> set (snd (onmessage now msg s))"
  by (auto simp: onmessage_def handle_interrupted_def Let_def case_prod_unfold
      split: option.splits)

lemma step_starts:
  assumes "SourceStart src t d \<in> set (snd (live_step e s))"
  shows "src \<in> set (liveSources (fst (live_step e s)))"
proof (cases e)
  case (StartSession cfg env)
  with assms startSession_effects[of "SourceStart src t d" cfg env s] show ?thesis by auto
next
  case (CleanupSession g)
  with assms cleanupSession_effects[of "SourceStart src t d" g s] show ?thesis by auto
next
  case (OnOpen sid)
  with assms show ?thesis by (auto simp: onopen_def split: option.splits)
next
  case (OnMessage sid now msg)
  with assms onmessage_effects[of "SourceStart src t d" now msg s] show ?thesis by auto
next
  case (AudioDecoded sid source dur)
  with assms show ?thesis by (auto simp: audio_decoded_def set_add_def)
next
  case (SourceEnded sid source)
  with assms show ?thesis
    by (auto simp: source_ended_def Let_def close_output_def call_end_def split: if_splits option.splits)
next
  case (OnClose sid now)
  with assms cleanupSession_effects[of "SourceStart src t d" True s] show ?thesis
    by (auto simp: onclose_def split: if_splits option.splits)
next
  case (OnError sid)
  with assms cleanupSession_effects[of "SourceStart src t d" False s] show ?thesis
    by (auto simp: onerror_def unrecoverable_error_def case_prod_unfold Let_def split: option.splits)
qed

lemma step_keeps:
  assumes "no_restart e" and "src \<in> set (liveSources s)"
    and "\<forall>sid. e \<noteq> SourceEnded sid src" and "SourceStop src \<notin> set (snd (live_step e s))"
  shows "src \<in> set (liveSources (fst (live_step e s)))"
proof (cases e)
  case (StartSession cfg env)
  with assms show ?thesis by simp
next
  case (CleanupSession g)
  with assms show ?thesis by (simp add: cleanupSession_sources)
next
  case (OnOpen sid)
  with assms show ?thesis by (simp add: onopen_def)
next
  case (OnMessage sid now msg)
  with assms onmessage_stops[of msg _ src s now] show ?thesis
    by (auto simp: onmessage_sources)
next
  case (AudioDecoded sid source dur)
  with assms show ?thesis by (auto simp: audio_decoded_def set_add_def)
next
  case (SourceEnded sid source)
  with assms show ?thesis by (auto simp: source_ended_sources)
next
  case (OnClose sid now)
  with assms show ?thesis
    by (auto simp: onclose_def cleanupSession_sources split: option.splits)
next
  case (OnError sid)
  with assms show ?thesis
    by (simp add: onerror_def case_prod_unfold Let_def cleanupSession_sources)
qed

lemma started_chunks_tracked:
  assumes "\<forall>e \<in> set evs. no_restart e"
    and "SourceStart src t d \<in> set (snd (live_run evs s))"
    and "\<forall>sid. SourceEnded sid src \<notin> set evs"
    and "SourceStop src \<notin> set (snd (live_run evs s))"
  shows "src \<in> set (liveSources (fst (live_run evs s)))"
  using assms
proof (induction evs rule: rev_induct)
  case Nil
  then show ?case by simp
next
  case (snoc e evs)
  define s0 where "s0 = fst (live_run evs s)"
  have run: "live_run (evs @ [e]) s = (fst (live_step e s0), snd (live_run evs s) @ snd (live_step e s0))"
    by (simp add: live_run_snoc s0_def)
  have nr: "\<forall>e \<in> set evs. no_restart e" "no_restart e" using snoc.prems(1) by simp_all
  have ne: "\<forall>sid. SourceEnded sid src \<notin> set evs" "\<forall>sid. e \<noteq> SourceEnded sid src"
    using snoc.prems(3) by auto
  have ns: "SourceStop src \<notin> set (snd (live_run evs s))" "SourceStop src \<notin> set (snd (live_step e s0))"
    using snoc.prems(4) by (simp_all add: run)
  from snoc.prems(2) consider "SourceStart src t d \<in> set (snd (live_run evs s))"
    | "SourceStart src t d \<in> set (snd (live_step e s0))"
    by (auto simp: run)
  then have "src \<in> set (liveSources (fst (live_step e s0)))"
  proof cases
    case 1
    from snoc.IH[OF nr(1) 1 ne(1) ns(1)] have "src \<in> set (liveSources s0)" by (simp add: s0_def)
    from step_keeps[OF nr(2) this ne(2) ns(2)] show ?thesis .
  next
    case 2
    then show ?thesis by (rule step_starts)
  qed
  then show ?case by (simp add: run)
qed

lemma release_step:
  assumes "no_restart e" and "r \<in> set (snd (live_step e s))" and "is_release r"
  shows "liveSources s = [] \<or> (\<exists>sid src. e = SourceEnded sid src \<and> set (liveSources s) \<subseteq> {src})"
proof (cases e)
  case (StartSession cfg env)
  with assms show ?thesis by simp
next
  case (CleanupSession g)
  with assms cleanupSession_release[of r g s] show ?thesis by simp
next
  case (OnOpen sid)
  with assms show ?thesis by (auto simp: onopen_def is_release_def split: option.splits)
next
  case (OnMessage sid now msg)
  with assms onmessage_effects[of r now msg s] show ?thesis by (auto simp: is_release_def)
next
  case (AudioDecoded sid source dur)
  with assms show ?thesis by (auto simp: audio_decoded_def is_release_def)
next
  case (SourceEnded sid source)
  with assms source_ended_release[of r sid source s] have "removeAll source (liveSources s) = []"
    by simp
  then have "set (liveSources s) - {source} = {}" by (metis set_removeAll set_empty)
  with SourceEnded show ?thesis by auto
next
  case (OnClose sid now)
  with assms cleanupSession_release[of r True s] show ?thesis
    by (auto simp: onclose_def is_release_def split: if_splits option.splits)
next
  case (OnError sid)
  with assms cleanupSession_release[of r False s] show ?thesis
    by (auto simp: onerror_def unrecoverable_error_def case_prod_unfold Let_def is_release_def
        split: option.splits)
qed

lemma source_ended_only:
  "\<not> isLiveActive s \<Longrightarrow> set (liveSources s) \<subseteq> {src} \<Longrightarrow>
     snd (source_ended (currentSessionId s) src s) = close_output s @ call_end s"
proof -
  assume a: "\<not> isLiveActive s" and b: "set (liveSources s) \<subseteq> {src}"
  from b have "set (removeAll src (liveSources s)) = {}" by auto
  then have "removeAll src (liveSources s) = []" by (simp only: set_empty)
  from source_ended_last[OF a refl this] show ?thesis .
qed

text \<open>
  C9. \<open>cleanupSession\<close> is idempotent: called while no session is active it returns
  the service unchanged and performs no effect (no callback is invoked), so a second
  teardown after a first one, graceful or not, is a no-op.
\<close>

theorem C9_cleanupSession_idempotent:
  "(\<not> isLiveActive s \<longrightarrow> cleanupSession graceful s = (s, []))
   \<and> cleanupSession graceful' (fst (cleanupSession graceful s))
       = (fst (cleanupSession graceful s), [])"
proof -
  have "\<not> isLiveActive s \<longrightarrow> cleanupSession graceful s = (s, [])"
    by (simp add: cleanupSession_def)
  moreover have "cleanupSession graceful' (fst (cleanupSession graceful s))
       = (fst (cleanupSession graceful s), [])"
    using cleanupSession_inactive[of graceful s]
    by (simp add: cleanupSession_def[of graceful'])
  ultimately show ?thesis by simp
qed

theorem C9_cleanupSession_idempotent_witness:
  "\<not> isLiveActive new_LiveCallService
   \<and> cleanupSession True new_LiveCallService = (new_LiveCallService, [])
   \<and> cleanupSession True
       (fst (cleanupSession False (new_LiveCallService\<lparr>isLiveActive := True, liveSources := [4]\<rparr>)))
     = (new_LiveCallService\<lparr>liveSources := [4]\<rparr>, [])"
  using C9_cleanupSession_idempotent[of new_LiveCallService True True]
    C9_cleanupSession_idempotent[of "new_LiveCallService\<lparr>isLiveActive := True, liveSources := [4]\<rparr>" False True]
  by (simp add: new_LiveCallService_def cleanupSession_def Let_def)

text \<open>
  C5, as stated, fails: \<open>startSession\<close> empties \<open>liveSources\<close> without stopping the chunks
  in it, so a teardown of the second session closes the output context and calls
  \<open>onCallEnd\<close> at once while chunk 20, started in the first session, has not ended.
\<close>

theorem C5_counterexample:
  "snd (live_run
         [StartSession 7 \<lparr>newInputContext = 1, newOutputContext = 2, newStream = 3,
                           newSession = 4, failure = None\<rparr>,
          OnMessage 1 0 \<lparr>serverContent = Some \<lparr>interrupted = False, inlineData = Some ''AAAA''\<rparr>,
                          toolCall = None\<rparr>,
          AudioDecoded 1 20 10,
          StartSession 8 \<lparr>newInputContext = 11, newOutputContext = 12, newStream = 13,
                           newSession = 14, failure = None\<rparr>,
          CleanupSession True] new_LiveCallService)
   = [OnStatusChange 7 ''CONNECTING CALL...'', DecodeAudio ''AAAA'', SourceStart 20 0 10,
      OnStatusChange 8 ''CONNECTING CALL...'',
      StopStreamTracks 13, CloseInputContext 11, CloseOutputContext 12, OnCallEnd 8]"
  by (simp add: new_LiveCallService_def startSession_def onmessage_def handle_interrupted_def
      handle_tool_calls_def base64Audio_def audio_decoded_def set_add_def
      cleanupSession_def close_output_def call_end_def Let_def double_add_def double_round_int)

text \<open>
  C5, amended. \<open>cleanupSession\<close> stops no chunk and leaves \<open>liveSources\<close> as it is. In any
  run without a further \<open>startSession\<close>, whenever a step closes the output context or
  calls \<open>onCallEnd\<close>, \<open>liveSources\<close> was empty before that step or the step is the \<open>ended\<close>
  event of its only member; and every chunk started earlier in the run has by then fired
  its \<open>ended\<close> event or been stopped by an interruption. After teardown, the \<open>ended\<close>
  event of the last member of \<open>liveSources\<close>, for the current session, closes the output
  context and calls \<open>onCallEnd\<close>.
\<close>

theorem C5_release_waits_for_started_chunks:
  "(\<forall>src. SourceStop src \<notin> set (snd (cleanupSession graceful s)))
   \<and> liveSources (fst (cleanupSession graceful s)) = liveSources s
   \<and> ((\<forall>e \<in> set (evs @ [ev]). no_restart e)
        \<and> (\<exists>r \<in> set (snd (live_step ev (fst (live_run evs s)))). is_release r) \<longrightarrow>
        (liveSources (fst (live_run evs s)) = []
           \<or> (\<exists>sid src'. ev = SourceEnded sid src'
                 \<and> set (liveSources (fst (live_run evs s))) \<subseteq> {src'}))
        \<and> (\<forall>src t d. SourceStart src t d \<in> set (snd (live_run evs s)) \<longrightarrow>
              (\<exists>sid. SourceEnded sid src \<in> set (evs @ [ev]))
              \<or> SourceStop src \<in> set (snd (live_run evs s))))
   \<and> (\<not> isLiveActive s \<and> set (liveSources s) \<subseteq> {src0} \<longrightarrow>
        snd (source_ended (currentSessionId s) src0 s) = close_output s @ call_end s)"
proof (intro conjI impI allI)
  show "SourceStop src \<notin> set (snd (cleanupSession graceful s))" for src
    by (rule cleanupSession_no_stop)
  show "liveSources (fst (cleanupSession graceful s)) = liveSources s"
    by (rule cleanupSession_sources)
next
  assume h: "(\<forall>e \<in> set (evs @ [ev]). no_restart e)
        \<and> (\<exists>r \<in> set (snd (live_step ev (fst (live_run evs s)))). is_release r)"
  then obtain r where r: "r \<in> set (snd (live_step ev (fst (live_run evs s))))" "is_release r"
    by blast
  from h have nr: "no_restart ev" "\<forall>e \<in> set evs. no_restart e" by simp_all
  from release_step[OF nr(1) r]
  show rel: "liveSources (fst (live_run evs s)) = []
           \<or> (\<exists>sid src'. ev = SourceEnded sid src'
                 \<and> set (liveSources (fst (live_run evs s))) \<subseteq> {src'})" .
  fix src t d
  assume st: "SourceStart src t d \<in> set (snd (live_run evs s))"
  show "(\<exists>sid. SourceEnded sid src \<in> set (evs @ [ev]))
              \<or> SourceStop src \<in> set (snd (live_run evs s))"
  proof (rule ccontr)
    assume "\<not> ((\<exists>sid. SourceEnded sid src \<in> set (evs @ [ev]))
              \<or> SourceStop src \<in> set (snd (live_run evs s)))"
    then have c: "\<forall>sid. SourceEnded sid src \<notin> set evs" "\<forall>sid. ev \<noteq> SourceEnded sid src"
      "SourceStop src \<notin> set (snd (live_run evs s))" by auto
    from started_chunks_tracked[OF nr(2) st c(1) c(3)]
    have "src \<in> set (liveSources (fst (live_run evs s)))" .
    with rel c(2) show False by auto
  qed
next
  assume "\<not> isLiveActive s \<and> set (liveSources s) \<subseteq> {src0}"
  then show "snd (source_ended (currentSessionId s) src0 s) = close_output s @ call_end s"
    using source_ended_only by blast
qed

theorem C5_release_waits_for_started_chunks_witness:
  "no_restart (OnMessage 1 0
        \<lparr>serverContent = Some \<lparr>interrupted = False, inlineData = Some ''AAAA''\<rparr>, toolCall = None\<rparr>)
   \<and> no_restart (AudioDecoded 1 20 10) \<and> no_restart (CleanupSession True)
   \<and> no_restart (SourceEnded 1 20)
   \<and> live_run
        [OnMessage 1 0 \<lparr>serverContent = Some \<lparr>interrupted = False, inlineData = Some ''AAAA''\<rparr>, toolCall = None\<rparr>,
         AudioDecoded 1 20 10,
         CleanupSession True]
        (new_LiveCallService\<lparr>liveOutputContext := Some 2, isLiveActive := True, config := Some 7,
           currentSessionId := 1\<rparr>)
      = (new_LiveCallService\<lparr>liveOutputContext := Some 2, isLiveActive := False, config := Some 7,
           currentSessionId := 1, liveSources := [20], liveNextStartTime := 10\<rparr>,
         [DecodeAudio ''AAAA'', SourceStart 20 0 10])
   \<and> snd (live_step (SourceEnded 1 20)
        (new_LiveCallService\<lparr>liveOutputContext := Some 2, isLiveActive := False, config := Some 7,
           currentSessionId := 1, liveSources := [20], liveNextStartTime := 10\<rparr>))
      = [CloseOutputContext 2, OnCallEnd 7]
   \<and> is_release (OnCallEnd 7)"
  using C5_release_waits_for_started_chunks[of True
      "new_LiveCallService\<lparr>liveOutputContext := Some 2, isLiveActive := True, config := Some 7,
           currentSessionId := 1\<rparr>"
      "[OnMessage 1 0 \<lparr>serverContent = Some \<lparr>interrupted = False, inlineData = Some ''AAAA''\<rparr>, toolCall = None\<rparr>,
        AudioDecoded 1 20 10,
        CleanupSession True]"
      "SourceEnded 1 20" 20]
  by (simp add: new_LiveCallService_def onmessage_def handle_interrupted_def handle_tool_calls_def
      base64Audio_def audio_decoded_def set_add_def cleanupSession_def source_ended_def
      close_output_def call_end_def is_release_def Let_def double_add_def double_round_int)

subsection \<open>Scheduling of audio chunks\<close>

lemma scheduled_append: "scheduled (fx @ gx) = scheduled fx @ scheduled gx"
  by (induction fx rule: scheduled.induct) simp_all

lemma scheduled_tool_calls: "scheduled (handle_tool_calls now msg s) = []"
proof (cases "toolCall msg")
  case None
  then show ?thesis by (simp add: handle_tool_calls_def)
next
  case (Some fcs)
  have "scheduled (concat (map (\<lambda>name.
            if name = ''endCall'' then
              [SendToolResponse,
               ScheduleCleanup (case liveOutputContext s of
                  Some c \<Rightarrow>
                    double_add (double_mult (max 0 (double_sub (liveNextStartTime s) now)) 1000) 1000
                | None \<Rightarrow> 1000)]
            else []) fcs)) = []"
    by (induction fcs) (simp_all add: scheduled_append)
  with Some show ?thesis by (simp add: handle_tool_calls_def)
qed

lemma scheduled_close_output: "scheduled (close_output s) = []"
  by (simp add: close_output_def split: option.splits)

lemma scheduled_call_end: "scheduled (call_end s) = []"
  by (simp add: call_end_def split: option.splits)

lemma onmessage_quiet:
  assumes "case serverContent msg of None \<Rightarrow> True | Some sc \<Rightarrow> \<not> interrupted sc"
  shows "scheduled (snd (onmessage now msg s)) = []"
    and "liveNextStartTime (fst (onmessage now msg s)) = liveNextStartTime s
         \<or> liveNextStartTime (fst (onmessage now msg s)) = max (liveNextStartTime s) now"
proof -
  have h: "handle_interrupted now msg s = (s, [])"
    using assms by (simp add: handle_interrupted_def split: option.splits)
  show "scheduled (snd (onmessage now msg s)) = []"
    by (simp add: onmessage_def h Let_def scheduled_append scheduled_tool_calls split: option.splits)
  show "liveNextStartTime (fst (onmessage now msg s)) = liveNextStartTime s
         \<or> liveNextStartTime (fst (onmessage now msg s)) = max (liveNextStartTime s) now"
    by (simp add: onmessage_def h Let_def split: option.splits)
qed

lemma source_ended_quiet:
  "scheduled (snd (source_ended sid src s)) = []
   \<and> liveNextStartTime (fst (source_ended sid src s)) = liveNextStartTime s"
  by (simp add: source_ended_def Let_def scheduled_append scheduled_close_output scheduled_call_end)

lemma audio_traffic_step:
  assumes "audio_traffic e" and "is_double (liveNextStartTime s)"
  shows "is_double (liveNextStartTime (fst (live_step e s)))
       \<and> liveNextStartTime s \<le> liveNextStartTime (fst (live_step e s))
       \<and> (\<forall>(t, d) \<in> set (scheduled (snd (live_step e s))).
            liveNextStartTime s \<le> t \<and> t \<le> liveNextStartTime (fst (live_step e s))
            \<and> double_add t d \<le> liveNextStartTime (fst (live_step e s)))
       \<and> back_to_back (scheduled (snd (live_step e s)))"
proof (cases e)
  case (OnMessage sid now msg)
  with assms(1) have q: "case serverContent msg of None \<Rightarrow> True | Some sc \<Rightarrow> \<not> interrupted sc"
    and n: "is_double now" by simp_all
  from onmessage_quiet[OF q, of now s] assms(2) n is_double_max[OF assms(2) n] OnMessage
  show ?thesis by auto
next
  case (AudioDecoded sid src dur)
  with assms(1) have "0 \<le> dur" by simp
  from double_round_grows[OF assms(2) this] AudioDecoded show ?thesis
    by (simp add: audio_decoded_def double_add_def is_double_round)
next
  case (SourceEnded sid src)
  with source_ended_quiet[of sid src s] assms(2) show ?thesis by simp
qed (use assms in simp_all)

lemma back_to_back_append:
  "back_to_back (xs @ ys) \<longleftrightarrow>
     back_to_back xs \<and> back_to_back ys
     \<and> (\<forall>(t, d) \<in> set xs. \<forall>(t', d') \<in> set ys. t \<le> t' \<and> double_add t d \<le> t')"
  by (induction xs rule: back_to_back.induct) auto

lemma audio_traffic_run:
  assumes "\<forall>e \<in> set evs. audio_traffic e" and "is_double (liveNextStartTime s)"
  shows "is_double (liveNextStartTime (fst (live_run evs s)))
       \<and> liveNextStartTime s \<le> liveNextStartTime (fst (live_run evs s))
       \<and> (\<forall>(t, d) \<in> set (scheduled (snd (live_run evs s))).
            liveNextStartTime s \<le> t \<and> t \<le> liveNextStartTime (fst (live_run evs s))
            \<and> double_add t d \<le> liveNextStartTime (fst (live_run evs s)))
       \<and> back_to_back (scheduled (snd (live_run evs s)))"
  using assms
proof (induction evs arbitrary: s)
  case Nil
  then show ?case by simp
next
  case (Cons e evs)
  define s1 where "s1 = fst (live_step e s)"
  define fx1 where "fx1 = snd (live_step e s)"
  define s2 where "s2 = fst (live_run evs s1)"
  define fx2 where "fx2 = snd (live_run evs s1)"
  have run: "live_run (e # evs) s = (s2, fx1 @ fx2)"
    by (simp add: s1_def fx1_def s2_def fx2_def split: prod.splits)
  from Cons.prems have "audio_traffic e" by simp
  from audio_traffic_step[OF this Cons.prems(2)]
  have st: "is_double (liveNextStartTime s1)" "liveNextStartTime s \<le> liveNextStartTime s1"
    "\<forall>(t, d) \<in> set (scheduled fx1). liveNextStartTime s \<le> t \<and> t \<le> liveNextStartTime s1
        \<and> double_add t d \<le> liveNextStartTime s1"
    "back_to_back (scheduled fx1)"
    by (simp_all add: s1_def fx1_def)
  from Cons.prems have "\<forall>e \<in> set evs. audio_traffic e" by simp
  from Cons.IH[OF this st(1)]
  have ih: "is_double (liveNextStartTime s2)" "liveNextStartTime s1 \<le> liveNextStartTime s2"
    "\<forall>(t, d) \<in> set (scheduled fx2). liveNextStartTime s1 \<le> t \<and> t \<le> liveNextStartTime s2
        \<and> double_add t d \<le> liveNextStartTime s2"
    "back_to_back (scheduled fx2)"
    by (simp_all add: s2_def fx2_def)
  have a: "liveNextStartTime s \<le> liveNextStartTime s2" using st(2) ih(2) by simp
  have b: "\<forall>(t, d) \<in> set (scheduled (fx1 @ fx2)).
            liveNextStartTime s \<le> t \<and> t \<le> liveNextStartTime s2
            \<and> double_add t d \<le> liveNextStartTime s2"
    using st(2,3) ih(2,3) by (fastforce simp: scheduled_append)
  have c: "back_to_back (scheduled (fx1 @ fx2))"
    using st(3,4) ih(3,4) by (fastforce simp: scheduled_append back_to_back_append)
  show ?case unfolding run using a b c ih(1) by simp
qed

lemma chunk_step:
  assumes "liveOutputContext s = Some c" and "carries_audio msg"
  shows "liveOutputContext (fst (live_run [OnMessage sid now msg, AudioDecoded sid source dur] s)) = Some c"
    and "liveNextStartTime (fst (live_run [OnMessage sid now msg, AudioDecoded sid source dur] s))
           = double_add (max (liveNextStartTime s) now) dur"
    and "scheduled (snd (live_run [OnMessage sid now msg, AudioDecoded sid source dur] s))
           = [(max (liveNextStartTime s) now, dur)]"
proof -
  from assms(2) obtain data where d: "base64Audio msg = Some data" "data \<noteq> []"
    by (auto simp: carries_audio_def split: option.splits)
  from assms(2) have i: "handle_interrupted now msg s = (s, [])"
    by (auto simp: carries_audio_def handle_interrupted_def split: option.splits)
  have m: "onmessage now msg s =
             (s\<lparr>liveNextStartTime := max (liveNextStartTime s) now\<rparr>,
              handle_tool_calls now msg s @ [DecodeAudio data])"
    using assms(1) d by (simp add: onmessage_def i Let_def)
  show "liveOutputContext (fst (live_run [OnMessage sid now msg, AudioDecoded sid source dur] s)) = Some c"
    using assms(1) by (simp add: m audio_decoded_def)
  show "liveNextStartTime (fst (live_run [OnMessage sid now msg, AudioDecoded sid source dur] s))
           = double_add (max (liveNextStartTime s) now) dur"
    by (simp add: m audio_decoded_def)
  show "scheduled (snd (live_run [OnMessage sid now msg, AudioDecoded sid source dur] s))
           = [(max (liveNextStartTime s) now, dur)]"
    by (simp add: m audio_decoded_def scheduled_append scheduled_tool_calls)
qed

lemma chunks_in_order:
  assumes "liveOutputContext s = Some c" and "\<forall>(now, msg, source, dur) \<in> set cs. carries_audio msg"
  shows "scheduled (snd (live_run (chunk_events sid cs) s)) = spec_schedule (liveNextStartTime s) cs"
  using assms
proof (induction cs arbitrary: s)
  case Nil
  then show ?case by simp
next
  case (Cons x cs)
  obtain now msg source dur where x: "x = (now, msg, source, dur)" by (cases x)
  define s' where "s' = fst (live_run [OnMessage sid now msg, AudioDecoded sid source dur] s)"
  from Cons.prems(2) x have a: "carries_audio msg" by simp
  note st = chunk_step[OF Cons.prems(1) a, of sid now source dur, folded s'_def]
  have ev: "chunk_events sid (x # cs) = [OnMessage sid now msg, AudioDecoded sid source dur] @ chunk_events sid cs"
    by (simp add: x)
  have run: "snd (live_run (chunk_events sid (x # cs)) s)
               = snd (live_run [OnMessage sid now msg, AudioDecoded sid source dur] s)
                 @ snd (live_run (chunk_events sid cs) s')"
    unfolding ev by (simp only: live_run_append s'_def snd_conv)
  from Cons.prems(2) have "\<forall>(now, msg, source, dur) \<in> set cs. carries_audio msg" by auto
  from Cons.IH[OF st(1) this]
  have "scheduled (snd (live_run (chunk_events sid cs) s'))
          = spec_schedule (double_add (max (liveNextStartTime s) now) dur) cs"
    by (simp only: st(2))
  then show ?case by (simp only: run scheduled_append st(3)) (simp add: x)
qed

text \<open>
  C2, as stated, fails. A chunk is started when its decode completes, at the
  \<open>liveNextStartTime\<close> of that moment: in the first run chunk 20 arrives first, at time 1
  with \<open>liveNextStartTime\<close> 0, but its decode completes last and it starts at 4, after
  chunk 21. And the time is advanced in double arithmetic: in the second run the chunk of
  0.7 s (the double nearest to it) started at 0.1 s is followed by a chunk that starts
  below the exact sum of the two.
\<close>

theorem C2_counterexample:
  "snd (live_run
         [StartSession 7 \<lparr>newInputContext = 1, newOutputContext = 2, newStream = 3,
                           newSession = 4, failure = None\<rparr>,
          OnMessage 1 1 \<lparr>serverContent = Some \<lparr>interrupted = False, inlineData = Some ''AAAA''\<rparr>,
                          toolCall = None\<rparr>,
          OnMessage 1 2 \<lparr>serverContent = Some \<lparr>interrupted = False, inlineData = Some ''BBBB''\<rparr>,
                          toolCall = None\<rparr>,
          AudioDecoded 1 21 2,
          AudioDecoded 1 20 3] new_LiveCallService)
   = [OnStatusChange 7 ''CONNECTING CALL...'', DecodeAudio ''AAAA'', DecodeAudio ''BBBB'',
      SourceStart 21 2 2, SourceStart 20 4 3]
   \<and> snd (live_run
         [StartSession 7 \<lparr>newInputContext = 1, newOutputContext = 2, newStream = 3,
                           newSession = 4, failure = None\<rparr>,
          OnMessage 1 (3602879701896397 / 36028797018963968)
            \<lparr>serverContent = Some \<lparr>interrupted = False, inlineData = Some ''AAAA''\<rparr>,
              toolCall = None\<rparr>,
          AudioDecoded 1 20 (3152519739159347 / 4503599627370496),
          AudioDecoded 1 21 1] new_LiveCallService)
   = [OnStatusChange 7 ''CONNECTING CALL...'', DecodeAudio ''AAAA'',
      SourceStart 20 (3602879701896397 / 36028797018963968)
        (3152519739159347 / 4503599627370496),
      SourceStart 21 (7205759403792793 / 9007199254740992) 1]
   \<and> (7205759403792793 / 9007199254740992 :: real)
       < 3602879701896397 / 36028797018963968 + 3152519739159347 / 4503599627370496"
  by (simp add: new_LiveCallService_def startSession_def onmessage_def handle_interrupted_def
      handle_tool_calls_def base64Audio_def audio_decoded_def set_add_def
      Let_def double_add_def double_round_int double_round_example)

text \<open>
  C2, amended. When each chunk is decoded before anything else happens, the chunks are
  scheduled as the specification says: each starts at the maximum of \<open>liveNextStartTime\<close>
  and the clock reading at its arrival, and \<open>liveNextStartTime\<close> is then that start
  advanced by the chunk's duration, the sum rounded to a double. And over every sequence
  of arrivals without interruption, decode completions and chunk ends, in any
  interleaving, the starts are non-decreasing in the order in which the chunks are
  started, and each chunk starts no earlier than the end of every chunk started before
  it, that end being the rounded sum of its start and duration.
\<close>

theorem C2_chunks_scheduled_back_to_back:
  "(liveOutputContext s = Some c \<and> (\<forall>(now, msg, source, dur) \<in> set cs. carries_audio msg) \<longrightarrow>
      scheduled (snd (live_run (chunk_events sessionId cs) s))
        = spec_schedule (liveNextStartTime s) cs)
   \<and> (is_double (liveNextStartTime s) \<and> (\<forall>e \<in> set evs. audio_traffic e) \<longrightarrow>
        back_to_back (scheduled (snd (live_run evs s))))"
proof (intro conjI impI)
  assume "liveOutputContext s = Some c \<and> (\<forall>(now, msg, source, dur) \<in> set cs. carries_audio msg)"
  then show "scheduled (snd (live_run (chunk_events sessionId cs) s))
        = spec_schedule (liveNextStartTime s) cs"
    using chunks_in_order by blast
next
  assume "is_double (liveNextStartTime s) \<and> (\<forall>e \<in> set evs. audio_traffic e)"
  with audio_traffic_run[of evs s] show "back_to_back (scheduled (snd (live_run evs s)))"
    by blast
qed

theorem C2_chunks_scheduled_back_to_back_witness:
  "liveOutputContext (new_LiveCallService\<lparr>liveOutputContext := Some 2, isLiveActive := True\<rparr>) = Some 2
   \<and> carries_audio
        \<lparr>serverContent = Some \<lparr>interrupted = False, inlineData = Some ''AAAA''\<rparr>, toolCall = None\<rparr>
   \<and> is_double (liveNextStartTime (new_LiveCallService\<lparr>liveOutputContext := Some 2, isLiveActive := True\<rparr>))
   \<and> audio_traffic (OnMessage 1 1
        \<lparr>serverContent = Some \<lparr>interrupted = False, inlineData = Some ''AAAA''\<rparr>, toolCall = None\<rparr>)
   \<and> audio_traffic (AudioDecoded 1 20 3)
   \<and> scheduled (snd (live_run
        (chunk_events 1
          [(1, \<lparr>serverContent = Some \<lparr>interrupted = False, inlineData = Some ''AAAA''\<rparr>, toolCall = None\<rparr>, 20, 3),
           (2, \<lparr>serverContent = Some \<lparr>interrupted = False, inlineData = Some ''AAAA''\<rparr>, toolCall = None\<rparr>, 21, 2)])
        (new_LiveCallService\<lparr>liveOutputContext := Some 2, isLiveActive := True\<rparr>)))
      = [(1, 3), (4, 2)]
   \<and> spec_schedule 0
        [(1, \<lparr>serverContent = Some \<lparr>interrupted = False, inlineData = Some ''AAAA''\<rparr>, toolCall = None\<rparr>, 20, 3),
         (2, \<lparr>serverContent = Some \<lparr>interrupted = False, inlineData = Some ''AAAA''\<rparr>, toolCall = None\<rparr>, 21, 2)]
      = [(1, 3), (4, 2)]
   \<and> scheduled (snd (live_run
        [OnMessage 1 1 \<lparr>serverContent = Some \<lparr>interrupted = False, inlineData = Some ''AAAA''\<rparr>, toolCall = None\<rparr>,
         OnMessage 1 2 \<lparr>serverContent = Some \<lparr>interrupted = False, inlineData = Some ''AAAA''\<rparr>, toolCall = None\<rparr>,
         AudioDecoded 1 21 2,
         AudioDecoded 1 20 3]
        (new_LiveCallService\<lparr>liveOutputContext := Some 2, isLiveActive := True\<rparr>)))
      = [(2, 2), (4, 3)]
   \<and> back_to_back [(2, 2), (4, 3)]"
  using C2_chunks_scheduled_back_to_back[of
      "new_LiveCallService\<lparr>liveOutputContext := Some 2, isLiveActive := True\<rparr>" 2
      "[(1, \<lparr>serverContent = Some \<lparr>interrupted = False, inlineData = Some ''AAAA''\<rparr>, toolCall = None\<rparr>, 20, 3),
        (2, \<lparr>serverContent = Some \<lparr>interrupted = False, inlineData = Some ''AAAA''\<rparr>, toolCall = None\<rparr>, 21, 2)]"
      1
      "[OnMessage 1 1 \<lparr>serverContent = Some \<lparr>interrupted = False, inlineData = Some ''AAAA''\<rparr>, toolCall = None\<rparr>,
        OnMessage 1 2 \<lparr>serverContent = Some \<lparr>interrupted = False, inlineData = Some ''AAAA''\<rparr>, toolCall = None\<rparr>,
        AudioDecoded 1 21 2,
        AudioDecoded 1 20 3]"]
  by (simp add: new_LiveCallService_def onmessage_def handle_interrupted_def handle_tool_calls_def
      base64Audio_def audio_decoded_def set_add_def Let_def is_double_def double_add_def
      double_round_int carries_audio_def)

subsection \<open>Interruption\<close>




subsection \<open>Stale session events\<close>

text \<open>
  C3. The code at the failing input: after two calls of \<open>startSession\<close> the current
  session id is 2. The \<open>onerror\<close> callback of session 1 then tears the second session
  down and calls the second caller's \<open>onUnrecoverableError\<close>, while an \<open>ended\<close> event of
  session 1 is ignored as the claim says.
\<close>

theorem C3_stale_error_tears_down_active_session:
  "let s2 = fst (live_run
         [StartSession 7 \<lparr>newInputContext = 1, newOutputContext = 2, newStream = 3,
                           newSession = 4, failure = None\<rparr>,
          StartSession 8 \<lparr>newInputContext = 11, newOutputContext = 12, newStream = 13,
                           newSession = 14, failure = None\<rparr>] new_LiveCallService)
   in currentSessionId s2 = 2 \<and> isLiveActive s2 \<and> config s2 = Some 8
    \<and> live_step (OnError 1) s2
        = (s2\<lparr>isLiveActive := False, liveSession := None, liveStream := None,
              liveInputContext := None, liveOutputContext := None\<rparr>,
           [StopStreamTracks 13, CloseInputContext 11, CloseOutputContext 12,
            OnUnrecoverableError 8])
    \<and> live_step (SourceEnded 1 20) s2 = (s2, [])"
  by (simp add: new_LiveCallService_def startSession_def onerror_def
      cleanupSession_def unrecoverable_error_def source_ended_def close_output_def call_end_def
      Let_def)

subsection \<open>Unrecoverable errors\<close>

lemma startSession_failure:
  assumes "failure env = Some f"
  shows "\<exists>t. isLiveActive t \<and> liveSources t = [] \<and> config t = Some cfg
           \<and> startSession cfg env s =
               (fst (cleanupSession False t),
                OnStatusChange cfg ''CONNECTING CALL...'' # OnUnrecoverableError cfg
                  # snd (cleanupSession False t))"
proof -
  define s0 where "s0 = s\<lparr>currentSessionId := currentSessionId s + 1, config := Some cfg,
                 isLiveActive := True, liveNextStartTime := 0, liveSources := []\<rparr>"
  define t where "t = (case f of
       ClientThrows \<Rightarrow> s0
     | OutputContextThrows \<Rightarrow> s0\<lparr>liveInputContext := Some (newInputContext env)\<rparr>
     | GetUserMediaRejects \<Rightarrow> s0\<lparr>liveInputContext := Some (newInputContext env),
                                    liveOutputContext := Some (newOutputContext env)\<rparr>
     | ConnectThrows \<Rightarrow> s0\<lparr>liveInputContext := Some (newInputContext env),
                              liveOutputContext := Some (newOutputContext env),
                              liveStream := Some (newStream env)\<rparr>)"
  have p: "isLiveActive t \<and> liveSources t = [] \<and> config t = Some cfg"
    by (cases f) (simp_all add: t_def s0_def)
  have "startSession cfg env s =
          (let (s', fx) = start_catch t in (s', OnStatusChange cfg ''CONNECTING CALL...'' # fx))"
    using assms by (cases f) (simp_all add: startSession_def t_def s0_def Let_def)
  also have "start_catch t =
          (fst (cleanupSession False t), OnUnrecoverableError cfg # snd (cleanupSession False t))"
    using p by (simp add: start_catch_def unrecoverable_error_def split: prod.splits)
  finally show ?thesis using p by auto
qed

lemma cleanupSession_False_effects:
  "OnUnrecoverableError c \<notin> set (snd (cleanupSession graceful s))
   \<and> OnCallEnd c \<notin> set (snd (cleanupSession False s))"
  by (auto simp: cleanupSession_def Let_def close_output_def call_end_def split: option.splits)

lemma count_list_notin: "x \<notin> set xs \<Longrightarrow> count_list xs x = 0"
  by (induction xs) auto

lemma cleanupSession_immediate:
  "isLiveActive s \<Longrightarrow> liveSources s = [] \<Longrightarrow>
     liveOutputContext (fst (cleanupSession graceful s)) = None
     \<and> set (close_output s) \<subseteq> set (snd (cleanupSession graceful s))"
  by (auto simp: cleanupSession_def Let_def close_output_def split: option.splits)

lemma cleanupSession_deferred:
  "liveSources s \<noteq> [] \<Longrightarrow>
     liveOutputContext (fst (cleanupSession graceful s)) = liveOutputContext s
     \<and> CloseOutputContext c \<notin> set (snd (cleanupSession graceful s))"
  by (auto simp: cleanupSession_def Let_def split: option.splits)

text \<open>
  C7, as stated, fails: after a backend error with a chunk in flight nothing is stopped,
  the chunk stays in \<open>liveSources\<close> and the output context stays open.
\<close>

theorem C7_counterexample:
  "snd (live_run
         [StartSession 7 \<lparr>newInputContext = 1, newOutputContext = 2, newStream = 3,
                           newSession = 4, failure = None\<rparr>,
          OnMessage 1 0 \<lparr>serverContent = Some \<lparr>interrupted = False, inlineData = Some ''AAAA''\<rparr>,
                          toolCall = None\<rparr>,
          AudioDecoded 1 20 3,
          OnError 1] new_LiveCallService)
   = [OnStatusChange 7 ''CONNECTING CALL...'', DecodeAudio ''AAAA'', SourceStart 20 0 3,
      StopStreamTracks 3, CloseInputContext 1, OnUnrecoverableError 7]
   \<and> liveSources (fst (live_run
         [StartSession 7 \<lparr>newInputContext = 1, newOutputContext = 2, newStream = 3,
                           newSession = 4, failure = None\<rparr>,
          OnMessage 1 0 \<lparr>serverContent = Some \<lparr>interrupted = False, inlineData = Some ''AAAA''\<rparr>,
                          toolCall = None\<rparr>,
          AudioDecoded 1 20 3,
          OnError 1] new_LiveCallService)) = [20]
   \<and> liveOutputContext (fst (live_run
         [StartSession 7 \<lparr>newInputContext = 1, newOutputContext = 2, newStream = 3,
                           newSession = 4, failure = None\<rparr>,
          OnMessage 1 0 \<lparr>serverContent = Some \<lparr>interrupted = False, inlineData = Some ''AAAA''\<rparr>,
                          toolCall = None\<rparr>,
          AudioDecoded 1 20 3,
          OnError 1] new_LiveCallService)) = Some 2"
  by (simp add: new_LiveCallService_def startSession_def onmessage_def handle_interrupted_def
      handle_tool_calls_def base64Audio_def audio_decoded_def set_add_def onerror_def
      cleanupSession_def unrecoverable_error_def Let_def double_add_def double_round_int)

text \<open>
  C7, amended. A failure inside \<open>startSession\<close> (no input device, no backend connection)
  and a backend error each call \<open>onUnrecoverableError\<close> exactly once and run
  \<open>cleanupSession(false)\<close>. That call ends the session and stops no source. When
  \<open>liveSources\<close> is empty it closes the output context at once and does not call
  \<open>onCallEnd\<close>; when \<open>liveSources\<close> is not empty it leaves the output context open.
\<close>

theorem C7_errors_notify_once:
  "(failure env = Some f \<longrightarrow>
      (let (s', fx) = startSession cfg env s in
         count_list fx (OnUnrecoverableError cfg) = 1
       \<and> \<not> isLiveActive s' \<and> liveOutputContext s' = None
       \<and> (\<forall>c. OnCallEnd c \<notin> set fx)))
   \<and> (config s = Some cfg \<longrightarrow>
        onerror s = (fst (cleanupSession False s),
                     snd (cleanupSession False s) @ [OnUnrecoverableError cfg])
      \<and> count_list (snd (onerror s)) (OnUnrecoverableError cfg) = 1)
   \<and> (isLiveActive s \<longrightarrow>
        (let (s', fx) = cleanupSession False s in
           \<not> isLiveActive s' \<and> liveSources s' = liveSources s
         \<and> (\<forall>src. SourceStop src \<notin> set fx)
         \<and> (liveSources s = [] \<longrightarrow>
              liveOutputContext s' = None \<and> set (close_output s) \<subseteq> set fx
            \<and> (\<forall>c. OnCallEnd c \<notin> set fx))
         \<and> (liveSources s \<noteq> [] \<longrightarrow>
              liveOutputContext s' = liveOutputContext s
            \<and> (\<forall>c. CloseOutputContext c \<notin> set fx))))"
proof (intro conjI impI)
  assume "failure env = Some f"
  from startSession_failure[OF this, of cfg s] obtain t where
    t: "isLiveActive t" "liveSources t = []" "config t = Some cfg"
    "startSession cfg env s =
       (fst (cleanupSession False t),
        OnStatusChange cfg ''CONNECTING CALL...'' # OnUnrecoverableError cfg
          # snd (cleanupSession False t))"
    by blast
  have "count_list (snd (cleanupSession False t)) (OnUnrecoverableError cfg) = 0"
    by (rule count_list_notin) (simp add: cleanupSession_False_effects)
  moreover have "\<forall>c. OnCallEnd c \<notin> set (snd (cleanupSession False t))"
    by (simp add: cleanupSession_False_effects)
  ultimately show "let (s', fx) = startSession cfg env s in
         count_list fx (OnUnrecoverableError cfg) = 1
       \<and> \<not> isLiveActive s' \<and> liveOutputContext s' = None
       \<and> (\<forall>c. OnCallEnd c \<notin> set fx)"
    using cleanupSession_inactive[of False t] cleanupSession_immediate[OF t(1,2), of False]
    by (simp add: t(4))
next
  assume c: "config s = Some cfg"
  then show e: "onerror s = (fst (cleanupSession False s),
                     snd (cleanupSession False s) @ [OnUnrecoverableError cfg])"
    by (simp add: onerror_def unrecoverable_error_def cleanupSession_config case_prod_unfold Let_def)
  have "count_list (snd (cleanupSession False s)) (OnUnrecoverableError cfg) = 0"
    by (rule count_list_notin) (simp add: cleanupSession_False_effects)
  then show "count_list (snd (onerror s)) (OnUnrecoverableError cfg) = 1"
    by (simp add: e)
next
  assume a: "isLiveActive s"
  show "let (s', fx) = cleanupSession False s in
           \<not> isLiveActive s' \<and> liveSources s' = liveSources s
         \<and> (\<forall>src. SourceStop src \<notin> set fx)
         \<and> (liveSources s = [] \<longrightarrow>
              liveOutputContext s' = None \<and> set (close_output s) \<subseteq> set fx
            \<and> (\<forall>c. OnCallEnd c \<notin> set fx))
         \<and> (liveSources s \<noteq> [] \<longrightarrow>
              liveOutputContext s' = liveOutputContext s
            \<and> (\<forall>c. CloseOutputContext c \<notin> set fx))"
    using cleanupSession_inactive[of False s] cleanupSession_sources[of False s]
      cleanupSession_False_effects[of _ False s] cleanupSession_no_stop[of _ False s]
      cleanupSession_immediate[OF a, of False] cleanupSession_deferred[of s False]
    by (simp add: case_prod_unfold)
qed

theorem C7_errors_notify_once_witness:
  "failure \<lparr>newInputContext = 1, newOutputContext = 2, newStream = 3, newSession = 4,
            failure = Some GetUserMediaRejects\<rparr> = Some GetUserMediaRejects
   \<and> startSession 7 \<lparr>newInputContext = 1, newOutputContext = 2, newStream = 3, newSession = 4,
                      failure = Some GetUserMediaRejects\<rparr> new_LiveCallService
      = (new_LiveCallService\<lparr>config := Some 7, currentSessionId := 1\<rparr>,
         [OnStatusChange 7 ''CONNECTING CALL...'', OnUnrecoverableError 7,
          CloseInputContext 1, CloseOutputContext 2])
   \<and> config (new_LiveCallService\<lparr>liveOutputContext := Some 2, isLiveActive := True,
        liveSources := [20], config := Some 7, currentSessionId := 1\<rparr>) = Some 7
   \<and> onerror (new_LiveCallService\<lparr>liveOutputContext := Some 2, isLiveActive := True,
        liveSources := [20], config := Some 7, currentSessionId := 1\<rparr>)
      = (new_LiveCallService\<lparr>liveOutputContext := Some 2, isLiveActive := False,
           liveSources := [20], config := Some 7, currentSessionId := 1\<rparr>,
         [OnUnrecoverableError 7])
   \<and> cleanupSession False (new_LiveCallService\<lparr>liveOutputContext := Some 2, isLiveActive := True,
        config := Some 7, currentSessionId := 1\<rparr>)
      = (new_LiveCallService\<lparr>config := Some 7, currentSessionId := 1\<rparr>, [CloseOutputContext 2])"
  using C7_errors_notify_once[of
      "\<lparr>newInputContext = 1, newOutputContext = 2, newStream = 3, newSession = 4,
        failure = Some GetUserMediaRejects\<rparr>" GetUserMediaRejects 7
      "new_LiveCallService\<lparr>liveOutputContext := Some 2, isLiveActive := True,
        liveSources := [20], config := Some 7, currentSessionId := 1\<rparr>"]
    C7_errors_notify_once[of
      "\<lparr>newInputContext = 1, newOutputContext = 2, newStream = 3, newSession = 4,
        failure = Some GetUserMediaRejects\<rparr>" GetUserMediaRejects 7
      "new_LiveCallService\<lparr>liveOutputContext := Some 2, isLiveActive := True,
        config := Some 7, currentSessionId := 1\<rparr>"]
  by (simp add: new_LiveCallService_def startSession_def start_catch_def onerror_def
      cleanupSession_def unrecoverable_error_def close_output_def call_end_def Let_def)

section \<open>Properties of the remote input source\<close>

lemma socket_run_silent:
  "propagateAudio s = None \<Longrightarrow>
     propagateAudio (fst (socket_run btoa evs s)) = None
     \<and> AudioCallback cb d m \<notin> set (snd (socket_run btoa evs s))"
proof (induction evs arbitrary: s)
  case Nil
  then show ?case by simp
next
  case (Cons e evs)
  have st: "propagateAudio (fst (socket_step btoa e s)) = None
          \<and> AudioCallback cb d m \<notin> set (snd (socket_step btoa e s))"
    using Cons.prems
    by (cases e)
       (auto simp: ws_onopen_def ws_onmessage_def ws_onclose_def
             split: RelayFrame.splits ControlMessage.splits option.splits)
  with Cons.IH[of "fst (socket_step btoa e s)"] show ?case
    by (simp add: case_prod_unfold Let_def)
qed

text \<open>
  C10. \<open>disconnect\<close> closes the relay socket and clears both \<open>ws\<close> and the stored audio
  callback; whatever the socket's handlers are then called with, no frame is forwarded to
  an audio callback.
\<close>

theorem C10_disconnect_silences_relay:
  "let (s1, fx1) = disconnect s in
     ws s1 = None \<and> propagateAudio s1 = None
   \<and> (\<forall>w. ws s = Some w \<longrightarrow> CloseWebSocket w \<in> set fx1)
   \<and> (\<forall>evs cb d m. AudioCallback cb d m \<notin> set (snd (socket_run btoa evs s1)))"
  using socket_run_silent[of "fst (disconnect s)" btoa]
  by (auto simp: disconnect_def)

theorem C10_disconnect_silences_relay_witness:
  "ws (fst (connect 9 False 1 (new_RemoteSocketSource ''8X2-A9D'' ''ws://localhost:8080'' 5))) = Some 1
   \<and> snd (ws_onmessage (\<lambda>x. x) (Binary [72, 105])
        (fst (connect 9 False 1 (new_RemoteSocketSource ''8X2-A9D'' ''ws://localhost:8080'' 5))))
      = [AudioCallback 9 (arrayBufferToBase64 (\<lambda>x. x) [72, 105]) ''audio/pcm;rate=16000'']
   \<and> disconnect (fst (connect 9 False 1 (new_RemoteSocketSource ''8X2-A9D'' ''ws://localhost:8080'' 5)))
      = (new_RemoteSocketSource ''8X2-A9D'' ''ws://localhost:8080'' 5, [CloseWebSocket 1])
   \<and> snd (socket_run (\<lambda>x. x) [WsMessage (Binary [72, 105]), WsClose]
        (fst (disconnect (fst (connect 9 False 1
           (new_RemoteSocketSource ''8X2-A9D'' ''ws://localhost:8080'' 5))))))
      = [StatusCallback 5 ''RELAY DISCONNECTED'']"
  using C10_disconnect_silences_relay[of
      "fst (connect 9 False 1 (new_RemoteSocketSource ''8X2-A9D'' ''ws://localhost:8080'' 5))" "\<lambda>x. x"]
  by (simp add: new_RemoteSocketSource_def connect_def initWebSocket_def disconnect_def
      ws_onmessage_def ws_onclose_def Let_def)

end
